theory Spec2Isabelle
  imports Complex_Main "HOL-Library.Monad_Syntax"
begin

unbundle bit_operations_syntax

section \<open>Machine arithmetic of the C sources\<close>

subsection \<open>The type \<open>int\<close> of C\<close>

text \<open>
  Values of the C type \<open>int\<close> are modelled as mathematical integers in the range
  \<open>INT_MIN .. INT_MAX\<close> of a 32-bit machine. Signed overflow is undefined in C, so it is
  not wrapped around: an operation whose result is undefined returns \<open>None\<close>.
  Division and remainder truncate towards zero (C99), unlike \<open>div\<close> and \<open>mod\<close> of HOL.
\<close>

definition INT_MIN :: int where
  "INT_MIN = - (2 ^ 31)"

definition INT_MAX :: int where
  "INT_MAX = 2 ^ 31 - 1"

definition is_int32 :: "int \<Rightarrow> bool" where
  "is_int32 x = (INT_MIN \<le> x \<and> x \<le> INT_MAX)"

definition c_quot :: "int \<Rightarrow> int \<Rightarrow> int" where
  "c_quot a b = (if (a < 0) = (b < 0) then \<bar>a\<bar> div \<bar>b\<bar> else - (\<bar>a\<bar> div \<bar>b\<bar>))"

definition c_div :: "int \<Rightarrow> int \<Rightarrow> int option" where
  "c_div a b = (if b = 0 \<or> (a = INT_MIN \<and> b = - 1) then None else Some (c_quot a b))"

definition c_mod :: "int \<Rightarrow> int \<Rightarrow> int option" where
  "c_mod a b = (if b = 0 \<or> (a = INT_MIN \<and> b = - 1) then None else Some (a - b * c_quot a b))"

definition c_sub :: "int \<Rightarrow> int \<Rightarrow> int option" where
  "c_sub a b = (if is_int32 (a - b) then Some (a - b) else None)"

subsection \<open>The type \<open>float\<close> of C\<close>

text \<open>
  A finite \<open>float\<close> is modelled by the real number it denotes, and each arithmetic
  operation returns the exact result rounded to the nearest binary32 value, ties to
  even (IEEE 754, the default rounding mode): 24 significant bits, exponents from
  \<open>- 126\<close> (below that the spacing stays at \<open>2 ^ - 149\<close>, the subnormal numbers).
  Every operation of a \<open>float\<close> expression rounds to binary32, as a compiler with
  \<open>FLT_EVAL_METHOD\<close> 0 evaluates it. Infinities and NaN are not represented: a
  result of magnitude \<open>2 ^ 128\<close> or more, where the hardware returns an infinity, and a
  division by zero are outside the model.

  \<open>rne\<close> rounds a real to the nearest integer, ties to even; \<open>f32_exp x\<close> is the exponent
  of the binade of \<open>x\<close>, found by search from \<open>- 126\<close> upwards.
\<close>

definition rne :: "real \<Rightarrow> int" where
  "rne y = (let f = \<lfloor>y\<rfloor>; d = y - of_int f in
            if d < 1 / 2 then f else if 1 / 2 < d then f + 1
            else if even f then f else f + 1)"

function f32_exp_from :: "int \<Rightarrow> real \<Rightarrow> int" where
  "f32_exp_from e x =
     (if 128 \<le> e \<or> \<bar>x\<bar> < 2 powi (e + 1) then e else f32_exp_from (e + 1) x)"
  by pat_completeness auto
termination
  by (relation "measure (\<lambda>(e, x). nat (128 - e))") auto

declare f32_exp_from.simps [simp del]

definition f32_exp :: "real \<Rightarrow> int" where
  "f32_exp x = f32_exp_from (- 126) x"

definition round_f32 :: "real \<Rightarrow> real" where
  "round_f32 x = (let u = 2 powi (f32_exp x - 23) in of_int (rne (x / u)) * u)"

definition f_add :: "real \<Rightarrow> real \<Rightarrow> real" where
  "f_add a b = round_f32 (a + b)"

definition f_sub :: "real \<Rightarrow> real \<Rightarrow> real" where
  "f_sub a b = round_f32 (a - b)"

definition f_mul :: "real \<Rightarrow> real \<Rightarrow> real" where
  "f_mul a b = round_f32 (a * b)"

definition f_div :: "real \<Rightarrow> real \<Rightarrow> real" where
  "f_div a b = round_f32 (a / b)"

text \<open>The conversion of an \<open>int\<close> operand to \<open>float\<close> rounds as well.\<close>

definition int_to_float :: "int \<Rightarrow> real" where
  "int_to_float i = round_f32 (of_int i)"

text \<open>
  \<open>floorf\<close> and \<open>ceilf\<close> are exact. The cast \<open>(int)\<close> of a \<open>float\<close> discards the
  fraction (rounds towards zero) and is undefined when the integral part is not an
  \<open>int\<close>: \<open>None\<close>.
\<close>

definition floorf :: "real \<Rightarrow> real" where
  "floorf x = of_int \<lfloor>x\<rfloor>"

definition ceilf :: "real \<Rightarrow> real" where
  "ceilf x = of_int \<lceil>x\<rceil>"

definition c_trunc :: "real \<Rightarrow> int" where
  "c_trunc x = (if 0 \<le> x then \<lfloor>x\<rfloor> else \<lceil>x\<rceil>)"

definition float_to_int :: "real \<Rightarrow> int option" where
  "float_to_int x = (if is_int32 (c_trunc x) then Some (c_trunc x) else None)"

text \<open>
  \<open>log2f\<close> is taken as the base-2 logarithm rounded to binary32. The program applies it
  to powers of two only, where the result is the exponent, exactly.
\<close>

definition log2f :: "real \<Rightarrow> real" where
  "log2f x = round_f32 (log 2 x)"

section \<open>Configuration constants\<close>

definition SCREEN_WIDTH :: int where "SCREEN_WIDTH = 800"
definition SCREEN_HEIGHT :: int where "SCREEN_HEIGHT = 600"
definition MAP_WIDTH :: int where "MAP_WIDTH = 1000"
definition MAP_HEIGHT :: int where "MAP_HEIGHT = 1000"
definition TILE_WIDTH :: int where "TILE_WIDTH = 32"
definition TILE_HEIGHT :: int where "TILE_HEIGHT = 32"

text \<open>The literals \<open>8.0f\<close>, \<open>16.0f\<close>, \<open>0.001f\<close> and \<open>1.1f\<close>.\<close>

definition LOD_PIXEL_THRESHOLD :: real where "LOD_PIXEL_THRESHOLD = 8"
definition MAX_ZOOM :: real where "MAX_ZOOM = 16"
definition MIN_ZOOM :: real where "MIN_ZOOM = round_f32 (1 / 1000)"
definition ZOOM_STEP :: real where "ZOOM_STEP = round_f32 (11 / 10)"

section \<open>Tile atlas metadata (maingl.c)\<close>

text \<open>
  The struct \<open>Tileset\<close> of maingl.c. The file path and the OpenGL texture handle are
  left out: no arithmetic depends on them. The C field \<open>use_shift\<close> holds 0 or 1.
\<close>

record Tileset =
  tile_width :: int
  tile_height :: int
  rows :: int
  cols :: int
  use_shift :: bool
  shift_bits :: int

text \<open>\<open>int is_power_of_two(int x) { return x > 0 && (x & (x - 1)) == 0; }\<close>\<close>

definition is_power_of_two :: "int \<Rightarrow> bool" where
  "is_power_of_two x = (0 < x \<and> x AND (x - 1) = 0)"

text \<open>
  The loop of \<open>main\<close>: \<open>int shift = 0; while ((1 << shift) < tileset.cols) shift++;\<close>.
  Shifting 1 by 31 or more overflows \<open>int\<close>, which is undefined: \<open>None\<close>.
\<close>

function shift_loop :: "int \<Rightarrow> nat \<Rightarrow> nat option" where
  "shift_loop c shift =
     (if 31 \<le> shift then None
      else if push_bit shift (1::int) < c then shift_loop c (Suc shift)
      else Some shift)"
  by pat_completeness auto
termination
  by (relation "measure (\<lambda>(c, shift). 31 - shift)") auto

declare shift_loop.simps [simp del]

text \<open>
  Lines 208 to 214 of maingl.c: \<open>main\<close> recomputes \<open>use_shift\<close> (without the test
  \<open>x > 0\<close> of \<open>is_power_of_two\<close>) and \<open>shift_bits\<close>, overwriting what
  \<open>load_tileset\<close> stored.
\<close>

definition main_shift_setup :: "Tileset \<Rightarrow> Tileset option" where
  "main_shift_setup ts =
     (if cols ts AND (cols ts - 1) = 0
      then (case shift_loop (cols ts) 0 of
              None \<Rightarrow> None
            | Some k \<Rightarrow> Some (ts\<lparr>use_shift := True, shift_bits := int k\<rparr>))
      else Some (ts\<lparr>use_shift := False\<rparr>))"

text \<open>
  The index decomposition at the head of \<open>draw_tile\<close>: the pair \<open>(sx, sy)\<close>.
  \<open>>>\<close> on \<open>int\<close> is the arithmetic shift; a shift count outside \<open>0 .. 31\<close> is undefined.
\<close>

definition atlas_cell :: "Tileset \<Rightarrow> int \<Rightarrow> (int \<times> int) option" where
  "atlas_cell ts tile_index =
     (if use_shift ts
      then (if 0 \<le> shift_bits ts \<and> shift_bits ts < 32
            then Some (tile_index AND (cols ts - 1), drop_bit (nat (shift_bits ts)) tile_index)
            else None)
      else (case (c_mod tile_index (cols ts), c_div tile_index (cols ts)) of
              (Some sx, Some sy) \<Rightarrow> Some (sx, sy)
            | _ \<Rightarrow> None))"

text \<open>
  The decomposition in the words of the specification: column \<open>tile_index mod columns\<close>,
  row \<open>tile_index div columns\<close>.
\<close>

definition atlas_cell_spec :: "int \<Rightarrow> int \<Rightarrow> int \<times> int" where
  "atlas_cell_spec columns tile_index = (tile_index mod columns, tile_index div columns)"

section \<open>Level-of-detail alignment (maingl.c)\<close>

text \<open>
  Lines 297 and 298: \<open>int start_x = (min_x / lod) * lod;\<close>. The product is never larger
  in magnitude than \<open>min_x\<close>, so it cannot overflow.
\<close>

definition align_start :: "int \<Rightarrow> int \<Rightarrow> int option" where
  "align_start min_c lod = (case c_div min_c lod of None \<Rightarrow> None | Some q \<Rightarrow> Some (q * lod))"

section \<open>Startup (maingl.c)\<close>

text \<open>
  The ways in which the start of \<open>main\<close> ends without a filled map: \<open>main\<close> returns 1
  (the image did not load, or \<open>malloc\<close> returned no memory), or it executes an operation
  whose behaviour is undefined (a division by a tile size of zero, a cast of a
  logarithm that is not an \<open>int\<close>, a shift of 1 by 31 bits, a remainder by zero in the
  fill).
\<close>

datatype failure =
    Exit_load_failed
  | Exit_alloc_failed
  | Undefined_tile_division
  | Undefined_log_cast
  | Undefined_shift
  | Undefined_fill_remainder

text \<open>
  \<open>load_tileset\<close>: the argument \<open>surface\<close> is what \<open>IMG_Load\<close> returned, \<open>None\<close> for
  a null pointer, else the width and height of the decoded image. On a null pointer the
  function returns 0 and \<open>main\<close> returns 1. Otherwise it stores the counts of columns
  and rows, the flag \<open>use_shift\<close> and, when the flag is set,
  \<open>shift_bits = (int)log2f((float)cols)\<close>.
\<close>

definition load_tileset :: "Tileset \<Rightarrow> (int \<times> int) option \<Rightarrow> failure + Tileset" where
  "load_tileset ts surface =
     (case surface of
        None \<Rightarrow> Inl Exit_load_failed
      | Some (w, h) \<Rightarrow>
          (case (c_div w (tile_width ts), c_div h (tile_height ts)) of
             (Some c, Some r) \<Rightarrow>
               (let ts' = ts\<lparr>cols := c, rows := r, use_shift := is_power_of_two c\<rparr>
                in if use_shift ts'
                   then (case float_to_int (log2f (int_to_float (cols ts'))) of
                           None \<Rightarrow> Inl Undefined_log_cast
                         | Some k \<Rightarrow> Inr (ts'\<lparr>shift_bits := k\<rparr>))
                   else Inr ts')
           | _ \<Rightarrow> Inl Undefined_tile_division))"

text \<open>
  \<open>fill_random_tilemap\<close>: \<open>rand_values k\<close> is the value of the \<open>k\<close>-th call of \<open>rand()\<close>;
  cell \<open>y * MAP_WIDTH + x\<close> is written by call number \<open>y * MAP_WIDTH + x\<close>. The remainder
  \<open>rand() % max_tile_index\<close> is undefined for \<open>max_tile_index = 0\<close>.
\<close>

definition fill_random_tilemap :: "(nat \<Rightarrow> int) \<Rightarrow> int \<Rightarrow> int list option" where
  "fill_random_tilemap rand_values max_tile_index =
     those (map (\<lambda>k. c_mod (rand_values k) max_tile_index)
                [0 ..< nat (MAP_HEIGHT * MAP_WIDTH)])"

text \<open>
  The start of \<open>main\<close> up to the fill of the map: the tileset
  \<open>{"tileset.png", TILE_WIDTH, TILE_HEIGHT, 0, 0, 0}\<close>, \<open>load_tileset\<close>, \<open>malloc\<close>
  (\<open>alloc_ok\<close> tells whether it returned memory), the shift setup, and
  \<open>fill_random_tilemap(&map, tileset.cols * tileset.rows)\<close>. The product of the
  counts of columns and rows is taken as it is: it overflows \<open>int\<close> only for an image
  of more than two thousand million tiles.
\<close>

definition initial_tileset :: Tileset where
  "initial_tileset = \<lparr>tile_width = TILE_WIDTH, tile_height = TILE_HEIGHT, rows = 0, cols = 0,
                       use_shift = False, shift_bits = 0\<rparr>"

definition main_startup ::
  "(int \<times> int) option \<Rightarrow> bool \<Rightarrow> (nat \<Rightarrow> int) \<Rightarrow> failure + (Tileset \<times> int list)" where
  "main_startup surface alloc_ok rand_values =
     (case load_tileset initial_tileset surface of
        Inl e \<Rightarrow> Inl e
      | Inr ts \<Rightarrow>
          if \<not> alloc_ok then Inl Exit_alloc_failed
          else (case main_shift_setup ts of
                  None \<Rightarrow> Inl Undefined_shift
                | Some ts' \<Rightarrow>
                    (case fill_random_tilemap rand_values (cols ts' * rows ts') of
                       None \<Rightarrow> Inl Undefined_fill_remainder
                     | Some tiles \<Rightarrow> Inr (ts', tiles))))"

section \<open>Camera and input events\<close>

text \<open>
  The locals of \<open>main\<close> that the event loop reads and writes. The zoom is a \<open>float\<close> in
  maingl.c and an \<open>int\<close> in main.c.
\<close>

record 'z Camera =
  offset_x :: real
  offset_y :: real
  zoom :: 'z
  dragging :: bool
  last_mouse_x :: int
  last_mouse_y :: int
  running :: bool

text \<open>
  The events the loop distinguishes. \<open>MouseWheel wy mx my\<close> carries the field \<open>wheel.y\<close>
  and the pointer position that \<open>SDL_GetMouseState\<close> reports while the event is handled.
\<close>

datatype mouse_button = Button_left | Button_other

datatype event =
    Quit
  | MouseButtonDown mouse_button int int
  | MouseButtonUp mouse_button
  | MouseMotion int int
  | MouseWheel int int int
  | WindowResized int int
  | OtherEvent

subsection \<open>maingl.c\<close>

definition initial_camera :: "real Camera" where
  "initial_camera =
     \<lparr>offset_x = f_div (int_to_float (MAP_WIDTH * TILE_WIDTH - SCREEN_WIDTH)) (- 2),
      offset_y = f_div (int_to_float (MAP_HEIGHT * TILE_HEIGHT - SCREEN_HEIGHT)) (- 2),
      zoom = 1, dragging = False, last_mouse_x = 0, last_mouse_y = 0, running = True\<rparr>"

text \<open>Lines 253 to 255: the step and the two clamps.\<close>

definition wheel_zoom :: "real \<Rightarrow> int \<Rightarrow> real" where
  "wheel_zoom z wy =
     (let z1 = f_mul z (if 0 < wy then ZOOM_STEP else f_div 1 ZOOM_STEP);
          z2 = (if z1 < MIN_ZOOM then MIN_ZOOM else z1)
      in if MAX_ZOOM < z2 then MAX_ZOOM else z2)"

text \<open>
  The world coordinate under the pointer: \<open>mx / zoom - offset_x\<close>. Pointer positions are
  window coordinates; their differences in the motion branch are far from overflowing
  \<open>int\<close> and are taken as they are.
\<close>

definition world_coord :: "int \<Rightarrow> real \<Rightarrow> real \<Rightarrow> real" where
  "world_coord m z off = f_sub (f_div (int_to_float m) z) off"

fun handle_event :: "real Camera \<Rightarrow> event \<Rightarrow> real Camera" where
  "handle_event s Quit = s\<lparr>running := False\<rparr>"
| "handle_event s (MouseButtonDown b x y) =
     (if b = Button_left then s\<lparr>dragging := True, last_mouse_x := x, last_mouse_y := y\<rparr>
      else s)"
| "handle_event s (MouseButtonUp b) =
     (if b = Button_left then s\<lparr>dragging := False\<rparr> else s)"
| "handle_event s (MouseMotion x y) =
     (if dragging s
      then s\<lparr>offset_x := f_add (offset_x s) (f_div (int_to_float (x - last_mouse_x s)) (zoom s)),
             offset_y := f_add (offset_y s) (f_div (int_to_float (y - last_mouse_y s)) (zoom s)),
             last_mouse_x := x, last_mouse_y := y\<rparr>
      else s)"
| "handle_event s (MouseWheel wy mx my) =
     (let world_x = world_coord mx (zoom s) (offset_x s);
          world_y = world_coord my (zoom s) (offset_y s);
          z = wheel_zoom (zoom s) wy
      in s\<lparr>zoom := z,
            offset_x := f_sub (f_div (int_to_float mx) z) world_x,
            offset_y := f_sub (f_div (int_to_float my) z) world_y\<rparr>)"
| "handle_event s (WindowResized w h) = s"
| "handle_event s OtherEvent = s"

text \<open>The inner loop \<open>while (SDL_PollEvent(&e))\<close> over the pending events, in order.\<close>

definition handle_events :: "real Camera \<Rightarrow> event list \<Rightarrow> real Camera" where
  "handle_events s es = foldl handle_event s es"

subsection \<open>main.c\<close>

definition initial_camera_sdl :: "int Camera" where
  "initial_camera_sdl =
     \<lparr>offset_x = f_div (int_to_float (MAP_WIDTH * 32 - SCREEN_WIDTH)) (- 2),
      offset_y = f_div (int_to_float (MAP_HEIGHT * 32 - SCREEN_HEIGHT)) (- 2),
      zoom = 1, dragging = False, last_mouse_x = 0, last_mouse_y = 0, running = True\<rparr>"

fun handle_event_sdl :: "int Camera \<Rightarrow> event \<Rightarrow> int Camera" where
  "handle_event_sdl s Quit = s\<lparr>running := False\<rparr>"
| "handle_event_sdl s (MouseButtonDown b x y) =
     (if b = Button_left then s\<lparr>dragging := True, last_mouse_x := x, last_mouse_y := y\<rparr>
      else s)"
| "handle_event_sdl s (MouseButtonUp b) =
     (if b = Button_left then s\<lparr>dragging := False\<rparr> else s)"
| "handle_event_sdl s (MouseMotion x y) =
     (if dragging s
      then s\<lparr>offset_x := f_add (offset_x s)
                             (f_div (int_to_float (x - last_mouse_x s)) (int_to_float (zoom s))),
             offset_y := f_add (offset_y s)
                             (f_div (int_to_float (y - last_mouse_y s)) (int_to_float (zoom s))),
             last_mouse_x := x, last_mouse_y := y\<rparr>
      else s)"
| "handle_event_sdl s (MouseWheel wy mx my) =
     (if 0 < wy \<and> zoom s < 4 then s\<lparr>zoom := zoom s * 2\<rparr>
      else if wy < 0 \<and> 1 < zoom s then s\<lparr>zoom := c_quot (zoom s) 2\<rparr>
      else s)"
| "handle_event_sdl s (WindowResized w h) = s"
| "handle_event_sdl s OtherEvent = s"

section \<open>The frame: level of detail, visible range, draw loop, hover\<close>

text \<open>
  A C loop \<open>for (int i = start; i < limit; i += step)\<close>: the values of \<open>i\<close> for which the
  body runs. With \<open>step \<le> 0\<close> and \<open>start < limit\<close> the loop does not terminate (or
  overflows \<open>i\<close>): \<open>None\<close>. In the frame the limit is at most the map size and the step
  at most 268, so \<open>i + step\<close> stays an \<open>int\<close>.
\<close>

function for_loop :: "int \<Rightarrow> int \<Rightarrow> int \<Rightarrow> int list option" where
  "for_loop i limit step =
     (if i < limit
      then (if step \<le> 0 then None else map_option ((#) i) (for_loop (i + step) limit step))
      else Some [])"
  by pat_completeness auto
termination
  by (relation "measure (\<lambda>(i, limit, step). nat (limit - i))") auto

declare for_loop.simps [simp del]

text \<open>The nested loops: \<open>y\<close> outside, \<open>x\<close> inside; the cells \<open>(x, y)\<close> in the order visited.\<close>

definition nested_loops ::
  "int \<Rightarrow> int \<Rightarrow> int \<Rightarrow> int \<Rightarrow> int \<Rightarrow> (int \<times> int) list option" where
  "nested_loops start_x start_y max_x max_y step =
     do {
       ys \<leftarrow> for_loop start_y max_y step;
       if ys = [] then Some []
       else do {
         xs \<leftarrow> for_loop start_x max_x step;
         Some (concat (map (\<lambda>y. map (\<lambda>x. (x, y)) xs) ys))
       }
     }"

text \<open>
  A read of the tile grid. maingl.c reads \<open>map.tiles[y * MAP_WIDTH + x]\<close> from the
  allocated block, main.c reads \<open>map.tiles[y][x]\<close> from the array
  \<open>tiles[MAP_HEIGHT][MAP_WIDTH]\<close>, here the list of its rows. A read outside the block,
  or outside a row, is \<open>None\<close>.
\<close>

definition tile_at :: "int list \<Rightarrow> int \<Rightarrow> int \<Rightarrow> int option" where
  "tile_at tiles x y =
     (let i = y * MAP_WIDTH + x
      in if 0 \<le> i \<and> nat i < length tiles then Some (tiles ! nat i) else None)"

definition tile_at_sdl :: "int list list \<Rightarrow> int \<Rightarrow> int \<Rightarrow> int option" where
  "tile_at_sdl tiles x y =
     (if 0 \<le> y \<and> nat y < length tiles \<and> 0 \<le> x \<and> nat x < length (tiles ! nat y)
      then Some (tiles ! nat y ! nat x) else None)"

record Bounds =
  min_x :: int
  min_y :: int
  max_x :: int
  max_y :: int

datatype highlight = No_highlight | Highlight int int

subsection \<open>maingl.c\<close>

text \<open>Lines 280 and 281.\<close>

definition tile_screen_size :: "real \<Rightarrow> real" where
  "tile_screen_size z = f_mul (int_to_float TILE_WIDTH) z"

definition lod_stride :: "real \<Rightarrow> int option" where
  "lod_stride z =
     (let tsz = tile_screen_size z
      in if tsz < LOD_PIXEL_THRESHOLD
         then float_to_int (ceilf (f_div LOD_PIXEL_THRESHOLD tsz))
         else Some 1)"

text \<open>Lines 285 to 288: the bounds as they are computed, before the clamps.\<close>

definition raw_bounds :: "real Camera \<Rightarrow> int \<Rightarrow> int \<Rightarrow> Bounds option" where
  "raw_bounds s screen_w screen_h =
     do {
       mnx \<leftarrow> float_to_int (floorf (f_div (- offset_x s) (int_to_float TILE_WIDTH)));
       mny \<leftarrow> float_to_int (floorf (f_div (- offset_y s) (int_to_float TILE_HEIGHT)));
       mxx \<leftarrow> float_to_int (ceilf (f_div (f_sub (f_div (int_to_float screen_w) (zoom s))
                                                (offset_x s)) (int_to_float TILE_WIDTH)));
       mxy \<leftarrow> float_to_int (ceilf (f_div (f_sub (f_div (int_to_float screen_h) (zoom s))
                                                (offset_y s)) (int_to_float TILE_HEIGHT)));
       Some \<lparr>min_x = mnx, min_y = mny, max_x = mxx, max_y = mxy\<rparr>
     }"

text \<open>Lines 291 to 294: the four clamps.\<close>

definition clamp_bounds :: "Bounds \<Rightarrow> Bounds" where
  "clamp_bounds r =
     \<lparr>min_x = (if min_x r < 0 then 0 else min_x r),
      min_y = (if min_y r < 0 then 0 else min_y r),
      max_x = (if MAP_WIDTH < max_x r then MAP_WIDTH else max_x r),
      max_y = (if MAP_HEIGHT < max_y r then MAP_HEIGHT else max_y r)\<rparr>"

definition visible_bounds :: "real Camera \<Rightarrow> int \<Rightarrow> int \<Rightarrow> Bounds option" where
  "visible_bounds s screen_w screen_h =
     do {
       r \<leftarrow> raw_bounds s screen_w screen_h;
       Some (clamp_bounds r)
     }"

text \<open>Lines 297 to 308: the cells whose tile index the draw loop reads.\<close>

definition frame_cells :: "real Camera \<Rightarrow> int \<Rightarrow> int \<Rightarrow> (int \<times> int) list option" where
  "frame_cells s screen_w screen_h =
     do {
       lod \<leftarrow> lod_stride (zoom s);
       b \<leftarrow> visible_bounds s screen_w screen_h;
       start_x \<leftarrow> align_start (min_x b) lod;
       start_y \<leftarrow> align_start (min_y b) lod;
       nested_loops start_x start_y (max_x b) (max_y b) lod
     }"

text \<open>Line 303: the tile indices the draw loop reads, in order.\<close>

definition frame_tiles :: "int list \<Rightarrow> real Camera \<Rightarrow> int \<Rightarrow> int \<Rightarrow> int list option" where
  "frame_tiles tiles s screen_w screen_h =
     do {
       cells \<leftarrow> frame_cells s screen_w screen_h;
       those (map (\<lambda>(x, y). tile_at tiles x y) cells)
     }"

text \<open>Lines 311 to 318: the tile under the pointer and whether its outline is drawn.\<close>

definition hover_tile :: "real Camera \<Rightarrow> int \<Rightarrow> int \<Rightarrow> highlight option" where
  "hover_tile s mx my =
     do {
       tile_x \<leftarrow> float_to_int (f_div (world_coord mx (zoom s) (offset_x s))
                                      (int_to_float TILE_WIDTH));
       tile_y \<leftarrow> float_to_int (f_div (world_coord my (zoom s) (offset_y s))
                                      (int_to_float TILE_HEIGHT));
       Some (if 0 \<le> tile_x \<and> tile_x < MAP_WIDTH \<and> 0 \<le> tile_y \<and> tile_y < MAP_HEIGHT
             then Highlight tile_x tile_y else No_highlight)
     }"

subsection \<open>main.c\<close>

text \<open>
  Lines 133 to 141, with \<open>tileset.tile_width = tileset.tile_height = 32\<close> and the fixed
  screen size.
\<close>

definition visible_bounds_sdl :: "int Camera \<Rightarrow> Bounds option" where
  "visible_bounds_sdl s =
     do {
       mnx \<leftarrow> float_to_int (f_div (- offset_x s) (int_to_float 32));
       mny \<leftarrow> float_to_int (f_div (- offset_y s) (int_to_float 32));
       mxx \<leftarrow> float_to_int (f_div (f_sub (f_div (int_to_float SCREEN_WIDTH)
                                                 (int_to_float (zoom s)))
                                          (offset_x s)) (int_to_float 32));
       mxy \<leftarrow> float_to_int (f_div (f_sub (f_div (int_to_float SCREEN_HEIGHT)
                                                 (int_to_float (zoom s)))
                                          (offset_y s)) (int_to_float 32));
       Some \<lparr>min_x = (if mnx < 0 then 0 else mnx),
             min_y = (if mny < 0 then 0 else mny),
             max_x = (if MAP_WIDTH < mxx + 1 then MAP_WIDTH else mxx + 1),
             max_y = (if MAP_HEIGHT < mxy + 1 then MAP_HEIGHT else mxy + 1)\<rparr>
     }"

definition frame_cells_sdl :: "int Camera \<Rightarrow> (int \<times> int) list option" where
  "frame_cells_sdl s =
     do {
       b \<leftarrow> visible_bounds_sdl s;
       nested_loops (min_x b) (min_y b) (max_x b) (max_y b) 1
     }"

definition frame_tiles_sdl :: "int list list \<Rightarrow> int Camera \<Rightarrow> int list option" where
  "frame_tiles_sdl tiles s =
     do {
       cells \<leftarrow> frame_cells_sdl s;
       those (map (\<lambda>(x, y). tile_at_sdl tiles x y) cells)
     }"

text \<open>
  Lines 158 to 173: \<open>(mx / zoom - (int)offset_x) / tileset.tile_width\<close>, in \<open>int\<close>
  arithmetic throughout.
\<close>

definition hover_tile_sdl :: "int Camera \<Rightarrow> int \<Rightarrow> int \<Rightarrow> highlight option" where
  "hover_tile_sdl s mx my =
     do {
       qx \<leftarrow> c_div mx (zoom s);
       ox \<leftarrow> float_to_int (offset_x s);
       dx \<leftarrow> c_sub qx ox;
       tile_x \<leftarrow> c_div dx 32;
       qy \<leftarrow> c_div my (zoom s);
       oy \<leftarrow> float_to_int (offset_y s);
       dy \<leftarrow> c_sub qy oy;
       tile_y \<leftarrow> c_div dy 32;
       Some (if 0 \<le> tile_x \<and> tile_x < MAP_WIDTH \<and> 0 \<le> tile_y \<and> tile_y < MAP_HEIGHT
             then Highlight tile_x tile_y else No_highlight)
     }"

section \<open>Statements of the specification\<close>

text \<open>
  The hovered tile in the words of the specification: the floor-based inverse camera
  transform of the pointer, exposed exactly when it lies on the grid.
\<close>

definition hover_tile_spec :: "real Camera \<Rightarrow> int \<Rightarrow> int \<Rightarrow> highlight" where
  "hover_tile_spec s mx my =
     (let tile_x = \<lfloor>f_div (world_coord mx (zoom s) (offset_x s)) (int_to_float TILE_WIDTH)\<rfloor>;
          tile_y = \<lfloor>f_div (world_coord my (zoom s) (offset_y s)) (int_to_float TILE_HEIGHT)\<rfloor>
      in if 0 \<le> tile_x \<and> tile_x < MAP_WIDTH \<and> 0 \<le> tile_y \<and> tile_y < MAP_HEIGHT
         then Highlight tile_x tile_y else No_highlight)"

text \<open>
  The bounds that the specification calls valid: within the grid, and not negative-sized.
\<close>

definition bounds_valid :: "Bounds \<Rightarrow> bool" where
  "bounds_valid b =
     (0 \<le> min_x b \<and> min_x b \<le> max_x b \<and> max_x b \<le> MAP_WIDTH
      \<and> 0 \<le> min_y b \<and> min_y b \<le> max_y b \<and> max_y b \<le> MAP_HEIGHT)"

section \<open>Properties\<close>

subsection \<open>C division on non-negative operands\<close>

lemma c_quot_nonneg: "0 \<le> a \<Longrightarrow> 0 < b \<Longrightarrow> c_quot a b = a div b"
  by (simp add: c_quot_def)

lemma c_div_nonneg: "0 \<le> a \<Longrightarrow> 0 < b \<Longrightarrow> c_div a b = Some (a div b)"
  by (simp add: c_div_def c_quot_nonneg INT_MIN_def)

lemma c_mod_nonneg: "0 \<le> a \<Longrightarrow> 0 < b \<Longrightarrow> c_mod a b = Some (a mod b)"
  by (simp add: c_mod_def c_quot_nonneg INT_MIN_def minus_mult_div_eq_mod)

subsection \<open>Rounding to binary32\<close>

text \<open>
  The exponent search stops at the binade of its argument; the rounding error is at
  most half a unit in the last place; numbers with a 24-bit significand are not changed.
\<close>

lemma rne_of_int: "rne (of_int i) = i"
  by (simp add: rne_def)

lemma f32_exp_from_ge: "e \<le> f32_exp_from e x"
proof (induction e x rule: f32_exp_from.induct)
  case (1 e x)
  show ?case
  proof (cases "128 \<le> e \<or> \<bar>x\<bar> < 2 powi (e + 1)")
    case True
    then show ?thesis by (subst f32_exp_from.simps) simp
  next
    case False
    then have "f32_exp_from e x = f32_exp_from (e + 1) x"
      by (subst f32_exp_from.simps) simp
    with 1 False show ?thesis by fastforce
  qed
qed

lemma f32_exp_from_upper:
  "e \<le> j \<Longrightarrow> \<bar>x\<bar> < 2 powi (j + 1) \<Longrightarrow> f32_exp_from e x \<le> j"
proof (induction e x rule: f32_exp_from.induct)
  case (1 e x)
  show ?case
  proof (cases "128 \<le> e \<or> \<bar>x\<bar> < 2 powi (e + 1)")
    case True
    then have "f32_exp_from e x = e" by (subst f32_exp_from.simps) simp
    with 1 show ?thesis by simp
  next
    case False
    then have eq: "f32_exp_from e x = f32_exp_from (e + 1) x"
      by (subst f32_exp_from.simps) simp
    from False "1.prems" have "e \<noteq> j" by auto
    with "1.prems" have "e + 1 \<le> j" by simp
    with 1 False eq show ?thesis by simp
  qed
qed

lemma f32_exp_from_stop:
  "f32_exp_from e x < 128 \<Longrightarrow> \<bar>x\<bar> < 2 powi (f32_exp_from e x + 1)"
proof (induction e x rule: f32_exp_from.induct)
  case (1 e x)
  show ?case
  proof (cases "128 \<le> e \<or> \<bar>x\<bar> < 2 powi (e + 1)")
    case True
    then have eq: "f32_exp_from e x = e" by (subst f32_exp_from.simps) simp
    with "1.prems" True show ?thesis by simp
  next
    case False
    then have eq: "f32_exp_from e x = f32_exp_from (e + 1) x"
      by (subst f32_exp_from.simps) simp
    with 1 False show ?thesis by simp
  qed
qed

lemma f32_exp_eqI:
  assumes "- 126 \<le> e" and "e \<le> 127" and "e = - 126 \<or> 2 powi e \<le> \<bar>x\<bar>"
    and "\<bar>x\<bar> < 2 powi (e + 1)"
  shows "f32_exp x = e"
proof (rule antisym)
  show le: "f32_exp x \<le> e"
    unfolding f32_exp_def using assms(1,4) by (rule f32_exp_from_upper)
  show "e \<le> f32_exp x"
  proof (rule ccontr)
    assume "\<not> e \<le> f32_exp x"
    then have lt: "f32_exp x < e" by simp
    have ge: "- 126 \<le> f32_exp x"
      unfolding f32_exp_def by (rule f32_exp_from_ge)
    with lt have "e \<noteq> - 126" by simp
    with assms(3) have lo: "2 powi e \<le> \<bar>x\<bar>" by simp
    from lt assms(2) have "f32_exp x < 128" by simp
    then have "\<bar>x\<bar> < 2 powi (f32_exp x + 1)"
      unfolding f32_exp_def by (rule f32_exp_from_stop)
    also have "\<dots> \<le> 2 powi e"
      using lt by (intro power_int_increasing) auto
    finally show False using lo by simp
  qed
qed

lemma round_f32_eqI:
  assumes "- 126 \<le> e" and "e \<le> 127" and "e = - 126 \<or> 2 powi e \<le> \<bar>x\<bar>"
    and "\<bar>x\<bar> < 2 powi (e + 1)" and "u = 2 powi (e - 23)" and "rne (x / u) = m"
  shows "round_f32 x = of_int m * u"
  using f32_exp_eqI [OF assms(1-4)] assms(5,6) by (simp add: round_f32_def)

lemma round_f32_representable:
  assumes "x = of_int m * 2 powi k" and "\<bar>m\<bar> < 2 ^ 24" and "- 149 \<le> k"
  shows "round_f32 x = x"
proof -
  define e where "e = f32_exp x"
  have "\<bar>x\<bar> = of_int \<bar>m\<bar> * 2 powi k"
    by (simp add: assms(1) abs_mult)
  also have "\<dots> < 2 ^ 24 * 2 powi k"
  proof -
    have "real_of_int \<bar>m\<bar> < real_of_int (2 ^ 24)"
      using assms(2) by (simp only: of_int_less_iff)
    then show ?thesis by (intro mult_strict_right_mono) auto
  qed
  also have "\<dots> = 2 powi (k + 23 + 1)"
    by (simp add: power_int_add)
  finally have "\<bar>x\<bar> < 2 powi (k + 23 + 1)" .
  moreover have "- 126 \<le> k + 23" using assms(3) by simp
  ultimately have "e \<le> k + 23"
    unfolding e_def f32_exp_def by (intro f32_exp_from_upper)
  then obtain n :: nat where n: "k - (e - 23) = int n"
    using nonneg_int_cases [of "k - (e - 23)"] by auto
  have "x / 2 powi (e - 23) = of_int m * 2 powi (k - (e - 23))"
    by (simp add: assms(1) power_int_diff)
  also have "\<dots> = of_int (m * 2 ^ n)"
    by (simp add: n)
  finally have "rne (x / 2 powi (e - 23)) = m * 2 ^ n"
    by (simp only: rne_of_int)
  then have "round_f32 x = of_int (m * 2 ^ n) * 2 powi (e - 23)"
    by (simp add: round_f32_def e_def)
  also have "\<dots> = of_int m * (2 powi (k - (e - 23)) * 2 powi (e - 23))"
    by (simp add: n)
  also have "\<dots> = of_int m * 2 powi k"
    by (simp flip: power_int_add)
  finally show ?thesis by (simp add: assms(1))
qed

lemma round_f32_int: "\<bar>i\<bar> < 2 ^ 24 \<Longrightarrow> round_f32 (of_int i) = of_int i"
  by (rule round_f32_representable [of _ i 0]) simp_all

lemma rne_error: "\<bar>of_int (rne y) - y\<bar> \<le> 1/2"
  unfolding rne_def Let_def by (auto simp: abs_if) linarith+

lemma f32_exp_from_lower:
  "e0 = e \<or> 2 powi e \<le> \<bar>x\<bar> \<Longrightarrow> f32_exp_from e x = e0 \<or> 2 powi (f32_exp_from e x) \<le> \<bar>x\<bar>"
proof (induction e x rule: f32_exp_from.induct)
  case (1 e x)
  show ?case
  proof (cases "128 \<le> e \<or> \<bar>x\<bar> < 2 powi (e + 1)")
    case True
    then have "f32_exp_from e x = e" by (subst f32_exp_from.simps) simp
    with 1 show ?thesis by auto
  next
    case False
    then have eq: "f32_exp_from e x = f32_exp_from (e + 1) x"
      by (subst f32_exp_from.simps) simp
    from False have "2 powi (e + 1) \<le> \<bar>x\<bar>" by simp
    then have "f32_exp_from (e + 1) x = e0 \<or> 2 powi (f32_exp_from (e + 1) x) \<le> \<bar>x\<bar>"
      using 1 False by blast
    then show ?thesis using eq by simp
  qed
qed

lemma f32_exp_lower: "f32_exp x = - 126 \<or> 2 powi (f32_exp x) \<le> \<bar>x\<bar>"
  unfolding f32_exp_def by (rule f32_exp_from_lower) simp

lemma round_f32_half_ulp: "\<bar>round_f32 x - x\<bar> \<le> 2 powi (f32_exp x - 24)"
proof -
  define u :: real where "u = 2 powi (f32_exp x - 23)"
  have upos: "0 < u" by (simp add: u_def)
  have "(of_int (rne (x / u)) - x / u) * u = of_int (rne (x / u)) * u - x"
    using upos by (simp add: left_diff_distrib)
  then have "\<bar>of_int (rne (x / u)) * u - x\<bar> = \<bar>of_int (rne (x / u)) - x / u\<bar> * \<bar>u\<bar>"
    by (simp only: abs_mult [symmetric])
  then have "\<bar>round_f32 x - x\<bar> = \<bar>of_int (rne (x / u)) - x / u\<bar> * u"
    using upos by (simp add: round_f32_def u_def [symmetric])
  also have "\<dots> \<le> 1/2 * u"
    using upos rne_error [of "x / u"] by (intro mult_right_mono) auto
  also have "\<dots> = 2 powi (f32_exp x - 24)"
    by (simp add: u_def power_int_diff)
  finally show ?thesis .
qed

lemma round_f32_error: "\<bar>round_f32 x - x\<bar> \<le> \<bar>x\<bar> / 2 ^ 24 + 1 / 2 ^ 150"
proof -
  have h: "\<bar>round_f32 x - x\<bar> \<le> 2 powi (f32_exp x - 24)" by (rule round_f32_half_ulp)
  have p1: "0 \<le> \<bar>x\<bar> / 2 ^ 24" by simp
  have p2: "(0::real) \<le> 1 / 2 ^ 150" by simp
  from f32_exp_lower [of x] show ?thesis
  proof
    assume "f32_exp x = - 126"
    with h have "\<bar>round_f32 x - x\<bar> \<le> 2 powi (- 150)" by simp
    also have "\<dots> = 1 / 2 ^ 150" by (simp add: power_int_minus divide_simps)
    finally show ?thesis using p1 by linarith
  next
    assume "2 powi (f32_exp x) \<le> \<bar>x\<bar>"
    moreover have "(2::real) powi (f32_exp x - 24) = 2 powi (f32_exp x) / 2 ^ 24"
      by (simp add: power_int_diff)
    ultimately have "2 powi (f32_exp x - 24) \<le> \<bar>x\<bar> / 2 ^ 24"
      by (simp add: divide_right_mono)
    with h p2 show ?thesis by linarith
  qed
qed

lemma float_to_int_of_int: "is_int32 n \<Longrightarrow> float_to_int (of_int n) = Some n"
  by (simp add: float_to_int_def c_trunc_def)

text \<open>
  Rounding is odd and monotone, and every value it returns has the form \<open>m * 2 ^ k\<close>
  with \<open>\<bar>m\<bar> \<le> 2 ^ 24\<close>.
\<close>

lemma rne_mono: "a \<le> b \<Longrightarrow> rne a \<le> rne b"
proof -
  assume ab: "a \<le> b"
  have f: "\<lfloor>a\<rfloor> \<le> \<lfloor>b\<rfloor>" using ab by (rule floor_mono)
  have lo: "\<lfloor>a\<rfloor> \<le> rne a" "rne a \<le> \<lfloor>a\<rfloor> + 1" "\<lfloor>b\<rfloor> \<le> rne b"
    by (simp_all add: rne_def Let_def)
  show ?thesis
  proof (cases "\<lfloor>a\<rfloor> = \<lfloor>b\<rfloor>")
    case False
    with f have "\<lfloor>a\<rfloor> + 1 \<le> \<lfloor>b\<rfloor>" by simp
    with lo show ?thesis by linarith
  next
    case True
    then have "a - of_int \<lfloor>a\<rfloor> \<le> b - of_int \<lfloor>b\<rfloor>" using ab by simp
    then show ?thesis using True by (auto simp add: rne_def Let_def)
  qed
qed

lemma rne_minus: "rne (- y) = - rne y"
proof (cases "y = of_int \<lfloor>y\<rfloor>")
  case True
  then obtain i where "y = of_int i" by blast
  then show ?thesis using rne_of_int [of i] rne_of_int [of "- i"] by simp
next
  case False
  have "of_int \<lfloor>y\<rfloor> \<le> y" "y < of_int \<lfloor>y\<rfloor> + 1"
    by linarith+
  with False have r: "0 < y - of_int \<lfloor>y\<rfloor>" "y - of_int \<lfloor>y\<rfloor> < 1"
    by linarith+
  have fl: "\<lfloor>- y\<rfloor> = - \<lfloor>y\<rfloor> - 1"
    using r by (intro floor_unique) simp_all
  have d: "- y - of_int \<lfloor>- y\<rfloor> = 1 - (y - of_int \<lfloor>y\<rfloor>)"
    by (simp add: fl)
  show ?thesis
    unfolding rne_def Let_def d using r by (auto simp add: fl)
qed

lemma f32_exp_from_abs: "f32_exp_from e (- x) = f32_exp_from e x"
proof (induction e x rule: f32_exp_from.induct)
  case (1 e x)
  show ?case
    using 1 by (subst (1 2) f32_exp_from.simps) auto
qed

lemma f32_exp_minus: "f32_exp (- x) = f32_exp x"
  by (simp add: f32_exp_def f32_exp_from_abs)

lemma round_f32_minus: "round_f32 (- x) = - round_f32 x"
  by (simp add: round_f32_def Let_def f32_exp_minus rne_minus)

lemma f32_exp_from_le_128: "f32_exp_from e x \<le> max e 128"
proof (induction e x rule: f32_exp_from.induct)
  case (1 e x)
  show ?case
  proof (cases "128 \<le> e \<or> \<bar>x\<bar> < 2 powi (e + 1)")
    case True
    then show ?thesis by (subst f32_exp_from.simps) simp
  next
    case False
    then have "f32_exp_from e x = f32_exp_from (e + 1) x"
      by (subst f32_exp_from.simps) simp
    with 1 False show ?thesis by simp
  qed
qed

lemma f32_exp_range: "- 126 \<le> f32_exp x \<and> f32_exp x \<le> 128"
  using f32_exp_from_ge [of "- 126" x] f32_exp_from_le_128 [of "- 126" x]
  by (simp add: f32_exp_def)

lemma f32_exp_mono: "\<bar>x\<bar> \<le> \<bar>y\<bar> \<Longrightarrow> f32_exp x \<le> f32_exp y"
proof (cases "f32_exp y < 128")
  case True
  assume xy: "\<bar>x\<bar> \<le> \<bar>y\<bar>"
  from True have "\<bar>y\<bar> < 2 powi (f32_exp y + 1)"
    unfolding f32_exp_def by (rule f32_exp_from_stop)
  with xy have "\<bar>x\<bar> < 2 powi (f32_exp y + 1)" by simp
  moreover have "- 126 \<le> f32_exp y" using f32_exp_range by simp
  ultimately show ?thesis
    unfolding f32_exp_def by (intro f32_exp_from_upper)
next
  case False
  then show ?thesis using f32_exp_range [of x] by simp
qed

lemma round_f32_unfold: "round_f32 x = of_int (rne (x / 2 powi (f32_exp x - 23))) * 2 powi (f32_exp x - 23)"
  by (simp add: round_f32_def Let_def)

lemma round_f32_upper:
  assumes "0 \<le> x" and "f32_exp x < 128"
  shows "round_f32 x \<le> 2 powi (f32_exp x + 1)"
proof -
  define u :: real where "u = 2 powi (f32_exp x - 23)"
  have upos: "0 < u" by (simp add: u_def)
  have pw: "2 powi (f32_exp x + 1) = 2 ^ 24 * u"
    unfolding u_def by (simp add: power_int_add power_int_diff)
  have "\<bar>x\<bar> < 2 powi (f32_exp x + 1)"
    using assms(2) unfolding f32_exp_def by (rule f32_exp_from_stop)
  then have "x < 2 ^ 24 * u"
    unfolding pw using assms(1) by simp
  then have "x / u < 2 ^ 24"
    using upos by (simp add: pos_divide_less_eq)
  then have "x / u \<le> of_int (2 ^ 24)"
    by simp
  then have "rne (x / u) \<le> 2 ^ 24"
    using rne_mono [of "x / u" "of_int (2 ^ 24)"] by (simp only: rne_of_int)
  then have "real_of_int (rne (x / u)) \<le> real_of_int (2 ^ 24)"
    by (simp only: of_int_le_iff)
  then have "of_int (rne (x / u)) * u \<le> 2 ^ 24 * u"
    using upos by (intro mult_right_mono) simp_all
  then show ?thesis
    unfolding pw round_f32_unfold [of x] u_def .
qed

lemma round_f32_lower:
  assumes "0 \<le> x" and "2 powi (f32_exp x) \<le> x"
  shows "2 powi (f32_exp x) \<le> round_f32 x"
proof -
  define u :: real where "u = 2 powi (f32_exp x - 23)"
  have upos: "0 < u" by (simp add: u_def)
  have pw: "2 powi (f32_exp x) = 2 ^ 23 * u"
    unfolding u_def by (simp add: power_int_diff)
  from assms(2) have "2 ^ 23 * u \<le> x"
    unfolding pw .
  then have "2 ^ 23 \<le> x / u"
    using upos by (simp add: pos_le_divide_eq)
  then have "of_int (2 ^ 23) \<le> x / u"
    by simp
  then have "2 ^ 23 \<le> rne (x / u)"
    using rne_mono [of "of_int (2 ^ 23)" "x / u"] by (simp only: rne_of_int)
  then have "real_of_int (2 ^ 23) \<le> real_of_int (rne (x / u))"
    by (simp only: of_int_le_iff)
  then have "2 ^ 23 * u \<le> of_int (rne (x / u)) * u"
    using upos by (intro mult_right_mono) simp_all
  then show ?thesis
    unfolding pw round_f32_unfold [of x] u_def .
qed

lemma round_f32_nonneg: "0 \<le> x \<Longrightarrow> 0 \<le> round_f32 x"
proof -
  assume x: "0 \<le> x"
  have "0 \<le> x / 2 powi (f32_exp x - 23)" using x by simp
  then have "rne 0 \<le> rne (x / 2 powi (f32_exp x - 23))" by (rule rne_mono)
  then have "0 \<le> rne (x / 2 powi (f32_exp x - 23))"
    using rne_of_int [of 0] by simp
  then show ?thesis by (simp add: round_f32_def Let_def)
qed

lemma round_f32_mono_nonneg:
  assumes "0 \<le> x" and "x \<le> y"
  shows "round_f32 x \<le> round_f32 y"
proof -
  have y: "0 \<le> y" using assms by simp
  have le: "f32_exp x \<le> f32_exp y"
    using assms by (intro f32_exp_mono) simp
  show ?thesis
  proof (cases "f32_exp x = f32_exp y")
    case True
    define u :: real where "u = 2 powi (f32_exp y - 23)"
    have upos: "0 < u" by (simp add: u_def)
    have "x / u \<le> y / u" using assms(2) upos by (simp add: divide_right_mono)
    then have "rne (x / u) \<le> rne (y / u)" by (rule rne_mono)
    then have "of_int (rne (x / u)) * u \<le> of_int (rne (y / u)) * u"
      using upos by (intro mult_right_mono) simp_all
    then show ?thesis by (simp add: round_f32_def Let_def True u_def)
  next
    case False
    with le have lt: "f32_exp x < f32_exp y" by simp
    then have x128: "f32_exp x < 128" using f32_exp_range [of y] by simp
    have "f32_exp y \<noteq> - 126" using lt f32_exp_range [of x] by simp
    with f32_exp_lower [of y] y have lo: "2 powi (f32_exp y) \<le> y" by simp
    have "round_f32 x \<le> 2 powi (f32_exp x + 1)"
      using assms(1) x128 by (rule round_f32_upper)
    also have "\<dots> \<le> 2 powi (f32_exp y)"
      using lt by (intro power_int_increasing) simp_all
    also have "\<dots> \<le> round_f32 y"
      using y lo by (rule round_f32_lower)
    finally show ?thesis .
  qed
qed

lemma round_f32_mono: "x \<le> y \<Longrightarrow> round_f32 x \<le> round_f32 y"
proof -
  assume xy: "x \<le> y"
  consider "0 \<le> x" | "x < 0" "0 \<le> y" | "y < 0" using xy by linarith
  then show ?thesis
  proof cases
    case 1
    then show ?thesis using xy by (rule round_f32_mono_nonneg)
  next
    case 2
    have "0 \<le> round_f32 (- x)" using 2(1) by (intro round_f32_nonneg) simp
    then have "round_f32 x \<le> 0" by (simp add: round_f32_minus)
    also have "\<dots> \<le> round_f32 y" using 2(2) by (rule round_f32_nonneg)
    finally show ?thesis .
  next
    case 3
    have "round_f32 (- y) \<le> round_f32 (- x)"
      using 3 xy by (intro round_f32_mono_nonneg) simp_all
    then show ?thesis by (simp add: round_f32_minus)
  qed
qed

lemma round_f32_error_normal:
  assumes "2 powi (- 126) \<le> \<bar>x\<bar>"
  shows "\<bar>round_f32 x - x\<bar> \<le> \<bar>x\<bar> / 2 ^ 24"
proof -
  have h: "\<bar>round_f32 x - x\<bar> \<le> 2 powi (f32_exp x - 24)" by (rule round_f32_half_ulp)
  have lo: "2 powi (f32_exp x) \<le> \<bar>x\<bar>"
    using f32_exp_lower [of x] assms by auto
  have "(2::real) powi (f32_exp x - 24) = 2 powi (f32_exp x) / 2 ^ 24"
    by (simp add: power_int_diff)
  with lo have "2 powi (f32_exp x - 24) \<le> \<bar>x\<bar> / 2 ^ 24"
    by (simp add: divide_right_mono)
  with h show ?thesis by linarith
qed

lemma representable_form:
  assumes "round_f32 z = z" and "f32_exp z < 128"
  shows "\<exists>m k. z = of_int m * 2 powi k \<and> \<bar>m\<bar> \<le> 2 ^ 24 \<and> - 149 \<le> k"
proof -
  define k where "k = f32_exp z - 23"
  define m where "m = rne (z / 2 powi k)"
  have z: "z = of_int m * 2 powi k"
    using assms(1) round_f32_unfold [of z] by (simp add: m_def k_def)
  have k: "- 149 \<le> k" using f32_exp_range [of z] by (simp add: k_def)
  have "f32_exp z + 1 = 24 + k" by (simp add: k_def)
  then have pw: "(2::real) powi (f32_exp z + 1) = 2 ^ 24 * 2 powi k"
    by (simp add: power_int_add)
  have "\<bar>z\<bar> < 2 powi (f32_exp z + 1)"
    using assms(2) f32_exp_from_stop [of "- 126" z] by (simp add: f32_exp_def)
  then have up: "\<bar>z\<bar> < 2 ^ 24 * 2 powi k"
    unfolding pw .
  have kpos: "(0::real) < 2 powi k" by simp
  have "\<bar>z\<bar> / 2 powi k < 2 ^ 24"
    using up kpos by (simp add: pos_divide_less_eq)
  moreover have "\<bar>z / 2 powi k\<bar> = \<bar>z\<bar> / 2 powi k"
    using kpos by (simp only: abs_divide abs_of_pos)
  ultimately have "\<bar>z / 2 powi k\<bar> < 2 ^ 24"
    by (simp only:)
  then have b: "- of_int (2 ^ 24) \<le> z / 2 powi k" "z / 2 powi k \<le> of_int (2 ^ 24)"
    unfolding abs_less_iff by simp_all
  have "rne (of_int (- (2 ^ 24))) \<le> m" "m \<le> rne (of_int (2 ^ 24))"
    unfolding m_def using b by (intro rne_mono; simp)+
  then have "- (2 ^ 24) \<le> m" "m \<le> 2 ^ 24"
    by (simp_all only: rne_of_int)
  then have "\<bar>m\<bar> \<le> 2 ^ 24"
    by linarith
  with z k show ?thesis by blast
qed

lemma representable_scaled:
  assumes "z = of_int m * 2 powi k" and "\<bar>m\<bar> \<le> 2 ^ 24" and "- 149 \<le> k"
  shows "round_f32 z = z"
proof (cases "\<bar>m\<bar> < 2 ^ 24")
  case True
  with assms show ?thesis by (intro round_f32_representable [of z m k])
next
  case False
  with assms(2) have "\<bar>m\<bar> = 2 ^ 24" by simp
  then consider "m = 2 ^ 24" | "m = - (2 ^ 24)" by (auto simp add: abs_if split: if_splits)
  then show ?thesis
  proof cases
    case 1
    have "z = of_int 1 * 2 powi (k + 24)"
      using assms(1) 1 by (simp add: power_int_add)
    then show ?thesis using assms(3) by (intro round_f32_representable [of z 1 "k + 24"]) simp_all
  next
    case 2
    have "z = of_int (- 1) * 2 powi (k + 24)"
      using assms(1) 2 by (simp add: power_int_add)
    then show ?thesis using assms(3) by (intro round_f32_representable [of z "- 1" "k + 24"]) simp_all
  qed
qed

lemma round_f32_times_32:
  assumes "round_f32 z = z" and "f32_exp z < 128"
  shows "round_f32 (32 * z) = 32 * z"
proof -
  obtain m k where z: "z = of_int m * 2 powi k" and m: "\<bar>m\<bar> \<le> 2 ^ 24" and k: "- 149 \<le> k"
    using representable_form [OF assms] by blast
  have "32 * z = of_int m * 2 powi (k + 5)"
    by (simp add: z power_int_add)
  then show ?thesis using m k by (intro representable_scaled [of _ m "k + 5"]) simp_all
qed

lemma f32_exp_small: "\<bar>z\<bar> \<le> 16 \<Longrightarrow> f32_exp z < 128"
proof -
  assume "\<bar>z\<bar> \<le> 16"
  then have "\<bar>z\<bar> < 2 powi (4 + 1)" by simp
  then have "f32_exp z \<le> 4"
    unfolding f32_exp_def by (intro f32_exp_from_upper) simp_all
  then show ?thesis by simp
qed

subsection \<open>Values of the literals\<close>

lemma MIN_ZOOM_value: "MIN_ZOOM = 8589935 / 8589934592"
  unfolding MIN_ZOOM_def
  by (rule trans [OF round_f32_eqI [where e = "- 10" and u = "1 / 2 ^ 33" and m = "8589935"]])
     (simp_all add: rne_def power_int_minus)

lemma ZOOM_STEP_value: "ZOOM_STEP = 9227469 / 8388608"
  unfolding ZOOM_STEP_def
  by (rule trans [OF round_f32_eqI [where e = "0" and u = "1 / 2 ^ 23" and m = "9227469"]])
     (simp_all add: rne_def power_int_minus)

lemma inverse_step_value: "f_div 1 ZOOM_STEP = 7626007 / 8388608"
  unfolding f_div_def ZOOM_STEP_value
  by (rule trans [OF round_f32_eqI [where e = "- 1" and u = "1 / 2 ^ 24" and m = "15252014"]])
     (simp_all add: rne_def power_int_minus)

lemma int_to_float_exact: "\<bar>i\<bar> < 2 ^ 24 \<Longrightarrow> int_to_float i = of_int i"
  unfolding int_to_float_def by (rule round_f32_int)

lemma int_to_float_32: "int_to_float 32 = 32"
  using int_to_float_exact [of 32] by simp

lemma round_f32_0: "round_f32 0 = 0"
  using round_f32_int [of 0] by simp

lemma round_f32_1: "round_f32 1 = 1"
  using round_f32_int [of 1] by simp

lemma round_f32_numeral:
  "(numeral n :: int) < 2 ^ 24 \<Longrightarrow> round_f32 (numeral n) = numeral n"
  using round_f32_int [of "numeral n"] by simp

lemma round_f32_neg_numeral:
  "(numeral n :: int) < 2 ^ 24 \<Longrightarrow> round_f32 (- numeral n) = - numeral n"
  using round_f32_int [of "- numeral n"] by simp

lemma round_f32_half_numeral:
  "(numeral n :: int) < 2 ^ 24 \<Longrightarrow> round_f32 (numeral n / 2) = numeral n / 2"
  by (rule round_f32_representable [of _ "numeral n" "- 1"]) (simp_all add: power_int_minus)

lemma round_f32_neg_half: "round_f32 (- (1 / 2)) = - (1 / 2)"
  by (rule round_f32_representable [of _ "- 1" "- 1"]) (simp_all add: power_int_minus)

lemma round_f32_half: "round_f32 (1 / 2) = 1 / 2"
  by (rule round_f32_representable [of _ "1" "- 1"]) (simp_all add: power_int_minus)

lemma round_f32_quarter_numeral:
  "(numeral n :: int) < 2 ^ 24 \<Longrightarrow> round_f32 (numeral n / 4) = numeral n / 4"
  by (rule round_f32_representable [of _ "numeral n" "- 2"]) (simp_all add: power_int_minus)

lemmas f32_eval = round_f32_0 round_f32_1 round_f32_numeral round_f32_neg_numeral
  round_f32_half_numeral round_f32_quarter_numeral round_f32_neg_half round_f32_half
  f_add_def f_sub_def f_mul_def f_div_def int_to_float_def floorf_def ceilf_def
  float_to_int_def c_trunc_def is_int32_def INT_MIN_def INT_MAX_def

lemmas config_defs = SCREEN_WIDTH_def SCREEN_HEIGHT_def MAP_WIDTH_def MAP_HEIGHT_def
  TILE_WIDTH_def TILE_HEIGHT_def LOD_PIXEL_THRESHOLD_def MAX_ZOOM_def

lemma MIN_le_MAX: "MIN_ZOOM \<le> MAX_ZOOM"
  by (simp add: MIN_ZOOM_value MAX_ZOOM_def)

lemma int_to_float_error: "\<bar>int_to_float d - of_int d\<bar> \<le> \<bar>of_int d\<bar> / 2 ^ 24"
proof (cases "d = 0")
  case True
  then show ?thesis by (simp add: int_to_float_def round_f32_0)
next
  case False
  then have "1 \<le> \<bar>d\<bar>" by simp
  then have "(1::real) \<le> \<bar>of_int d\<bar>"
    by (metis of_int_1 of_int_abs of_int_le_iff)
  moreover have "(2::real) powi (- 126) \<le> 1"
    by (simp add: power_int_minus inverse_eq_divide)
  ultimately have "2 powi (- 126) \<le> \<bar>real_of_int d\<bar>" by linarith
  then show ?thesis
    unfolding int_to_float_def by (rule round_f32_error_normal)
qed

subsection \<open>The zoom stays in its range\<close>

lemma wheel_zoom_range: "MIN_ZOOM \<le> wheel_zoom z wy \<and> wheel_zoom z wy \<le> MAX_ZOOM"
  using MIN_le_MAX by (simp add: wheel_zoom_def Let_def)

lemma handle_event_zoom:
  "MIN_ZOOM \<le> zoom s \<and> zoom s \<le> MAX_ZOOM \<Longrightarrow>
   MIN_ZOOM \<le> zoom (handle_event s e) \<and> zoom (handle_event s e) \<le> MAX_ZOOM"
  using wheel_zoom_range by (cases e) (simp_all add: Let_def)

lemma handle_events_zoom:
  "MIN_ZOOM \<le> zoom s \<and> zoom s \<le> MAX_ZOOM \<Longrightarrow>
   MIN_ZOOM \<le> zoom (handle_events s es) \<and> zoom (handle_events s es) \<le> MAX_ZOOM"
  unfolding handle_events_def
proof (induction es arbitrary: s)
  case Nil
  then show ?case by simp
next
  case (Cons e es)
  show ?case
    using Cons.IH [OF handle_event_zoom [OF Cons.prems]] by simp
qed

lemma initial_zoom: "MIN_ZOOM \<le> zoom initial_camera \<and> zoom initial_camera \<le> MAX_ZOOM"
  by (simp add: initial_camera_def MIN_ZOOM_value MAX_ZOOM_def)

text \<open>
  C3. The zoom starts at 1.0, and after any sequence of events handled by the event loop
  of maingl.c (button, motion, wheel, resize, quit, in any order) it lies between
  \<open>MIN_ZOOM\<close> and \<open>MAX_ZOOM\<close>; the sequence being arbitrary, this holds after every
  single event.
\<close>

theorem zoom_range_invariant:
  "zoom initial_camera = 1
   \<and> MIN_ZOOM \<le> zoom (handle_events initial_camera es)
   \<and> zoom (handle_events initial_camera es) \<le> MAX_ZOOM"
  using handle_events_zoom [OF initial_zoom] by (simp add: initial_camera_def)

theorem zoom_range_invariant_witness:
  "MIN_ZOOM \<le> zoom (handle_events initial_camera
      [MouseWheel 1 400 300, MouseButtonDown Button_left 10 10, MouseMotion 30 5,
       MouseWheel (- 1) 3 3])"
  using zoom_range_invariant
    [of "[MouseWheel 1 400 300, MouseButtonDown Button_left 10 10, MouseMotion 30 5,
          MouseWheel (- 1) 3 3]"]
  by simp

subsection \<open>Level-of-detail stride\<close>

lemma tile_screen_size_lower:
  assumes "MIN_ZOOM \<le> z"
  shows "3 / 100 \<le> tile_screen_size z"
proof -
  have e: "\<bar>round_f32 (32 * z) - 32 * z\<bar> \<le> \<bar>32 * z\<bar> / 2 ^ 24 + 1 / 2 ^ 150"
    by (rule round_f32_error)
  have z: "8589935 / 8589934592 \<le> z"
    using assms by (simp add: MIN_ZOOM_value)
  then have "\<bar>32 * z\<bar> = 32 * z" by simp
  with e have "32 * z - 32 * z / 2 ^ 24 - 1 / 2 ^ 150 \<le> round_f32 (32 * z)"
    by linarith
  with z have "3 / 100 \<le> round_f32 (32 * z)"
    by simp
  then show ?thesis
    by (simp add: tile_screen_size_def f_mul_def TILE_WIDTH_def int_to_float_32)
qed

lemma lod_quotient_bounds:
  assumes "3 / 100 \<le> t" and "t < 8"
  shows "0 < f_div 8 t \<and> f_div 8 t \<le> 268"
proof -
  have tpos: "0 < t" using assms(1) by simp
  define y where "y = 8 / t"
  have y1: "1 < y" using assms(2) tpos by (simp add: y_def)
  have y2: "y \<le> 267" using assms(1) tpos by (simp add: y_def field_simps)
  have e: "\<bar>round_f32 y - y\<bar> \<le> \<bar>y\<bar> / 2 ^ 24 + 1 / 2 ^ 150"
    by (rule round_f32_error)
  have "\<bar>y\<bar> = y" using y1 by simp
  with e have lo: "y - y / 2 ^ 24 - 1 / 2 ^ 150 \<le> round_f32 y"
    and hi: "round_f32 y \<le> y + y / 2 ^ 24 + 1 / 2 ^ 150"
    by linarith+
  from lo y1 have "0 < round_f32 y" by simp
  moreover from hi y2 have "round_f32 y \<le> 268" by simp
  ultimately show ?thesis by (simp add: f_div_def y_def)
qed

lemma lod_stride_defined:
  assumes "MIN_ZOOM \<le> z"
  shows "\<exists>l. lod_stride z = Some l \<and> 1 \<le> l \<and> l \<le> 268
           \<and> l = (if tile_screen_size z < LOD_PIXEL_THRESHOLD
                  then \<lceil>f_div LOD_PIXEL_THRESHOLD (tile_screen_size z)\<rceil> else 1)"
proof (cases "tile_screen_size z < LOD_PIXEL_THRESHOLD")
  case False
  then show ?thesis by (simp add: lod_stride_def)
next
  case True
  define r where "r = f_div 8 (tile_screen_size z)"
  have b: "0 < r \<and> r \<le> 268"
    unfolding r_def using tile_screen_size_lower [OF assms] True
    by (intro lod_quotient_bounds) (simp_all add: LOD_PIXEL_THRESHOLD_def)
  then have c1: "1 \<le> \<lceil>r\<rceil>" by (simp add: ceiling_less_iff flip: not_less) 
  from b have c2: "\<lceil>r\<rceil> \<le> 268" by (simp add: ceiling_le_iff)
  have "is_int32 \<lceil>r\<rceil>"
    using c1 c2 by (simp add: is_int32_def INT_MIN_def INT_MAX_def)
  then have "float_to_int (ceilf r) = Some \<lceil>r\<rceil>"
    unfolding ceilf_def by (rule float_to_int_of_int)
  then show ?thesis
    using True c1 c2 by (simp add: lod_stride_def r_def LOD_PIXEL_THRESHOLD_def Let_def)
qed

lemma tenth_rounded: "round_f32 (1 / 10) = 13421773 / 134217728"
  by (rule trans [OF round_f32_eqI [where e = "- 4" and u = "1 / 2 ^ 27" and m = "13421773"]])
     (simp_all add: rne_def power_int_minus)

lemma tile_screen_size_tenth:
  "tile_screen_size (round_f32 (1 / 10)) = 13421773 / 4194304"
proof -
  have "round_f32 (13421773 / 4194304) = 13421773 / 4194304"
    by (rule round_f32_representable [of _ 13421773 "- 22"]) (simp_all add: power_int_minus)
  then show ?thesis
    by (simp add: tile_screen_size_def f_mul_def TILE_WIDTH_def int_to_float_32 tenth_rounded)
qed

lemma thirtytwo_tenths_rounded: "round_f32 (32 / 10) = 13421773 / 4194304"
  by (rule trans [OF round_f32_eqI [where e = "1" and u = "1 / 2 ^ 22" and m = "13421773"]])
     (simp_all add: rne_def power_int_minus)

lemma lod_quotient_tenth: "f_div 8 (13421773 / 4194304) = 5 / 2"
  unfolding f_div_def
  by (rule trans [OF round_f32_eqI [where e = "1" and u = "1 / 2 ^ 22" and m = "10485760"]])
     (simp_all add: rne_def power_int_minus)

lemma lod_stride_tenth: "lod_stride (round_f32 (1 / 10)) = Some 3"
proof -
  have "\<lceil>5 / 2 :: real\<rceil> = 3" by linarith
  then show ?thesis
    by (simp add: lod_stride_def tile_screen_size_tenth LOD_PIXEL_THRESHOLD_def
        lod_quotient_tenth ceilf_def float_to_int_def c_trunc_def is_int32_def
        INT_MIN_def INT_MAX_def)
qed

text \<open>
  For a zoom that is a \<open>float\<close> the product \<open>TILE_WIDTH * zoom\<close> is exact: scaling by 32
  changes the exponent only.
\<close>

lemma tile_screen_size_exact:
  assumes "round_f32 z = z" and "\<bar>z\<bar> \<le> 16"
  shows "tile_screen_size z = of_int TILE_WIDTH * z"
  using round_f32_times_32 [OF assms(1) f32_exp_small [OF assms(2)]]
  by (simp add: tile_screen_size_def f_mul_def TILE_WIDTH_def int_to_float_32)

text \<open>
  The quotient \<open>LOD_PIXEL_THRESHOLD / tsz\<close> is rounded before \<open>ceilf\<close> is applied.
  Rounding is monotone and leaves integers alone, so the ceiling of the rounded quotient
  is the ceiling of the exact one, or one less when the exact quotient exceeds an integer
  by less than the rounding error.
\<close>

lemma lod_ceiling_exact_or_below:
  assumes "1 < y" and "y \<le> 267"
  shows "\<lceil>round_f32 y\<rceil> = \<lceil>y\<rceil>
         \<or> (\<lceil>round_f32 y\<rceil> = \<lceil>y\<rceil> - 1 \<and> of_int (\<lceil>y\<rceil> - 1) < y
             \<and> y * (1 - 1 / 2 ^ 24) \<le> of_int (\<lceil>y\<rceil> - 1))"
proof -
  define n where "n = \<lceil>y\<rceil>"
  have n1: "of_int (n - 1) < y" and n2: "y \<le> of_int n"
    unfolding n_def by linarith+
  have "1 < real_of_int n" using assms(1) n2 by linarith
  then have nl: "1 < n" by simp
  have "real_of_int (n - 1) < 267" using n1 assms(2) by linarith
  then have nu: "n \<le> 267" by simp
  have "round_f32 (of_int (n - 1)) = of_int (n - 1)"
    using nl nu by (intro round_f32_int) simp
  moreover have "round_f32 (of_int (n - 1)) \<le> round_f32 y"
    using n1 by (intro round_f32_mono) simp
  ultimately have lo: "of_int (n - 1) \<le> round_f32 y" by simp
  have "round_f32 (of_int n) = of_int n"
    using nl nu by (intro round_f32_int) simp
  moreover have "round_f32 y \<le> round_f32 (of_int n)"
    using n2 by (rule round_f32_mono)
  ultimately have hi: "round_f32 y \<le> of_int n" by simp
  show ?thesis
  proof (cases "round_f32 y = of_int (n - 1)")
    case True
    have "(2::real) powi (- 126) \<le> 1"
      by (simp add: power_int_minus inverse_eq_divide)
    then have "2 powi (- 126) \<le> \<bar>y\<bar>" using assms(1) by linarith
    then have "\<bar>round_f32 y - y\<bar> \<le> \<bar>y\<bar> / 2 ^ 24" by (rule round_f32_error_normal)
    moreover have "\<bar>y\<bar> = y" using assms(1) by simp
    ultimately have "y - y / 2 ^ 24 \<le> round_f32 y" by linarith
    moreover have "y * (1 - 1 / 2 ^ 24) = y - y / 2 ^ 24" by (simp add: algebra_simps)
    ultimately have "y * (1 - 1 / 2 ^ 24) \<le> of_int (n - 1)"
      unfolding True by linarith
    moreover have "\<lceil>round_f32 y\<rceil> = n - 1"
      unfolding True by (rule ceiling_of_int)
    ultimately show ?thesis using n1 by (simp add: n_def)
  next
    case False
    with lo have "of_int (n - 1) < round_f32 y" by simp
    then have "of_int n - 1 < round_f32 y" by simp
    with hi have "\<lceil>round_f32 y\<rceil> = n" by (intro ceiling_unique) simp_all
    then show ?thesis by (simp add: n_def)
  qed
qed

lemma lod_stride_accuracy:
  assumes "MIN_ZOOM \<le> z" and "tile_screen_size z < LOD_PIXEL_THRESHOLD"
  shows "\<lceil>f_div LOD_PIXEL_THRESHOLD (tile_screen_size z)\<rceil>
           = \<lceil>LOD_PIXEL_THRESHOLD / tile_screen_size z\<rceil>
         \<or> (\<lceil>f_div LOD_PIXEL_THRESHOLD (tile_screen_size z)\<rceil>
               = \<lceil>LOD_PIXEL_THRESHOLD / tile_screen_size z\<rceil> - 1
             \<and> of_int (\<lceil>LOD_PIXEL_THRESHOLD / tile_screen_size z\<rceil> - 1)
                 < LOD_PIXEL_THRESHOLD / tile_screen_size z
             \<and> LOD_PIXEL_THRESHOLD / tile_screen_size z * (1 - 1 / 2 ^ 24)
                 \<le> of_int (\<lceil>LOD_PIXEL_THRESHOLD / tile_screen_size z\<rceil> - 1))"
proof -
  define t where "t = tile_screen_size z"
  have t: "3 / 100 \<le> t" "t < 8"
    using tile_screen_size_lower [OF assms(1)] assms(2)
    by (simp_all add: t_def LOD_PIXEL_THRESHOLD_def)
  then have tpos: "0 < t" by simp
  have y1: "1 < 8 / t" using t(2) tpos by simp
  have y2: "8 / t \<le> 267" using t(1) tpos by (simp add: field_simps)
  from lod_ceiling_exact_or_below [OF y1 y2] show ?thesis
    by (simp only: f_div_def LOD_PIXEL_THRESHOLD_def t_def)
qed

lemma hundredth_rounded: "round_f32 (1 / 100) = 5368709 / 536870912"
  by (rule trans [OF round_f32_eqI [where e = "- 7" and u = "1 / 2 ^ 30" and m = "10737418"]])
     (simp_all add: rne_def power_int_minus)

lemma tile_screen_size_hundredth:
  "tile_screen_size (round_f32 (1 / 100)) = 5368709 / 16777216"
proof -
  have "round_f32 (5368709 / 16777216) = 5368709 / 16777216"
    by (rule round_f32_representable [of _ 5368709 "- 24"]) (simp_all add: power_int_minus)
  then show ?thesis
    by (simp add: tile_screen_size_def f_mul_def TILE_WIDTH_def int_to_float_32
        hundredth_rounded)
qed

lemma lod_quotient_hundredth: "f_div 8 (5368709 / 16777216) = 25"
  unfolding f_div_def
  by (rule trans [OF round_f32_eqI [where e = "4" and u = "1 / 2 ^ 19" and m = "13107200"]])
     (simp_all add: rne_def power_int_minus)

text \<open>
  C5, as stated, fails. At zoom \<open>0.01f = 5368709 / 536870912\<close>, inside the range, the
  on-screen tile size is \<open>32 * zoom = 5368709 / 16777216\<close>, a little less than 0.32. The
  exact quotient \<open>8 / size\<close> is a little more than 25 and its ceiling is 26; the \<open>float\<close>
  quotient of line 281 is 25 and so is the stride.
\<close>

theorem lod_stride_not_exact_ceiling:
  "MIN_ZOOM \<le> round_f32 (1 / 100) \<and> round_f32 (1 / 100) \<le> MAX_ZOOM
   \<and> tile_screen_size (round_f32 (1 / 100)) = of_int TILE_WIDTH * round_f32 (1 / 100)
   \<and> tile_screen_size (round_f32 (1 / 100)) < LOD_PIXEL_THRESHOLD
   \<and> lod_stride (round_f32 (1 / 100)) = Some 25
   \<and> \<lceil>LOD_PIXEL_THRESHOLD / tile_screen_size (round_f32 (1 / 100))\<rceil> = 26"
proof -
  have c: "\<lceil>134217728 / 5368709 :: real\<rceil> = 26"
    by (simp add: ceiling_eq_iff)
  have l: "lod_stride (round_f32 (1 / 100)) = Some 25"
    by (simp add: lod_stride_def tile_screen_size_hundredth LOD_PIXEL_THRESHOLD_def
        lod_quotient_hundredth ceilf_def float_to_int_def c_trunc_def is_int32_def
        INT_MIN_def INT_MAX_def)
  have h: "MIN_ZOOM \<le> round_f32 (1 / 100)" "round_f32 (1 / 100) \<le> MAX_ZOOM"
    by (simp_all add: hundredth_rounded MIN_ZOOM_value MAX_ZOOM_def)
  have "of_int TILE_WIDTH * round_f32 (1 / 100) = 5368709 / 16777216"
    by (simp add: hundredth_rounded TILE_WIDTH_def)
  then have t: "tile_screen_size (round_f32 (1 / 100)) = of_int TILE_WIDTH * round_f32 (1 / 100)"
    by (simp only: tile_screen_size_hundredth)
  have u: "tile_screen_size (round_f32 (1 / 100)) < LOD_PIXEL_THRESHOLD"
    by (simp add: tile_screen_size_hundredth LOD_PIXEL_THRESHOLD_def)
  have v: "\<lceil>LOD_PIXEL_THRESHOLD / tile_screen_size (round_f32 (1 / 100))\<rceil> = 26"
    using c by (simp add: tile_screen_size_hundredth LOD_PIXEL_THRESHOLD_def)
  show ?thesis
    by (intro conjI h t u l v)
qed

text \<open>
  The same happens at the \<open>float\<close> zoom \<open>8985287 / 2 ^ 33\<close>, just above \<open>MIN_ZOOM\<close>: the
  stride is 239 where the ceiling of the exact quotient is 240.
\<close>

lemma lod_quotient_near_min: "f_div 8 (8985287 / 268435456) = 239"
  unfolding f_div_def
  by (rule trans [OF round_f32_eqI [where e = "7" and u = "1 / 2 ^ 16" and m = "15663104"]])
     (simp_all add: rne_def power_int_minus)

lemma tile_screen_size_near_min:
  "tile_screen_size (8985287 / 8589934592) = 8985287 / 268435456"
proof -
  have "round_f32 (8985287 / 268435456) = 8985287 / 268435456"
    by (rule round_f32_representable [of _ 8985287 "- 28"]) (simp_all add: power_int_minus)
  then show ?thesis
    by (simp add: tile_screen_size_def f_mul_def TILE_WIDTH_def int_to_float_32)
qed

lemma lod_stride_near_min:
  "MIN_ZOOM \<le> 8985287 / 8589934592 \<and> 8985287 / 8589934592 \<le> MAX_ZOOM
   \<and> round_f32 (8985287 / 8589934592) = 8985287 / 8589934592
   \<and> lod_stride (8985287 / 8589934592) = Some 239
   \<and> \<lceil>LOD_PIXEL_THRESHOLD / tile_screen_size (8985287 / 8589934592)\<rceil> = 240"
proof -
  have c: "\<lceil>2147483648 / 8985287 :: real\<rceil> = 240"
    by (simp add: ceiling_eq_iff)
  have r: "round_f32 (8985287 / 8589934592) = 8985287 / 8589934592"
    by (rule round_f32_representable [of _ 8985287 "- 33"]) (simp_all add: power_int_minus)
  have l: "lod_stride (8985287 / 8589934592) = Some 239"
    by (simp add: lod_stride_def tile_screen_size_near_min LOD_PIXEL_THRESHOLD_def
        lod_quotient_near_min ceilf_def float_to_int_def c_trunc_def is_int32_def
        INT_MIN_def INT_MAX_def)
  show ?thesis
    using c by (simp add: l r tile_screen_size_near_min MIN_ZOOM_value config_defs)
qed

text \<open>
  C5, amended. For every zoom between \<open>MIN_ZOOM\<close> and \<open>MAX_ZOOM\<close> the on-screen tile
  size is the \<open>float\<close> product \<open>TILE_WIDTH * zoom\<close>, which is the exact product when the
  zoom is a \<open>float\<close>. The stride is defined and at least 1. It is 1 when the size is not
  below \<open>LOD_PIXEL_THRESHOLD\<close>, and otherwise the ceiling of the \<open>float\<close> quotient
  \<open>LOD_PIXEL_THRESHOLD / size\<close>: that is \<open>ceil (LOD_PIXEL_THRESHOLD / size)\<close>, or one
  less than it when the exact quotient exceeds the stride by a relative \<open>2 ^ - 24\<close> at
  most. At zoom \<open>0.1f\<close> the size is \<open>3.2f\<close> and the stride is 3.
\<close>

theorem lod_stride_within_rounding:
  assumes "MIN_ZOOM \<le> z" and "z \<le> MAX_ZOOM"
  shows "tile_screen_size z = f_mul (int_to_float TILE_WIDTH) z
         \<and> (round_f32 z = z \<longrightarrow> tile_screen_size z = of_int TILE_WIDTH * z)
         \<and> (\<exists>l. lod_stride z = Some l \<and> 1 \<le> l
                \<and> l = (if tile_screen_size z < LOD_PIXEL_THRESHOLD
                       then \<lceil>f_div LOD_PIXEL_THRESHOLD (tile_screen_size z)\<rceil> else 1)
                \<and> (l = (if tile_screen_size z < LOD_PIXEL_THRESHOLD
                         then \<lceil>LOD_PIXEL_THRESHOLD / tile_screen_size z\<rceil> else 1)
                    \<or> (tile_screen_size z < LOD_PIXEL_THRESHOLD
                        \<and> l = \<lceil>LOD_PIXEL_THRESHOLD / tile_screen_size z\<rceil> - 1
                        \<and> of_int l < LOD_PIXEL_THRESHOLD / tile_screen_size z
                        \<and> LOD_PIXEL_THRESHOLD / tile_screen_size z * (1 - 1 / 2 ^ 24)
                            \<le> of_int l)))
         \<and> tile_screen_size (round_f32 (1 / 10)) = round_f32 (32 / 10)
         \<and> lod_stride (round_f32 (1 / 10)) = Some 3"
proof -
  have ex1: "tile_screen_size (round_f32 (1 / 10)) = round_f32 (32 / 10)"
    by (simp only: tile_screen_size_tenth thirtytwo_tenths_rounded)
  have zb: "\<bar>z\<bar> \<le> 16"
    using assms by (simp add: MIN_ZOOM_value MAX_ZOOM_def)
  have t1: "tile_screen_size z = f_mul (int_to_float TILE_WIDTH) z"
    by (simp add: tile_screen_size_def)
  have t2: "round_f32 z = z \<longrightarrow> tile_screen_size z = of_int TILE_WIDTH * z"
    using tile_screen_size_exact [OF _ zb] by blast
  obtain l where l: "lod_stride z = Some l" "1 \<le> l"
    "l = (if tile_screen_size z < LOD_PIXEL_THRESHOLD
          then \<lceil>f_div LOD_PIXEL_THRESHOLD (tile_screen_size z)\<rceil> else 1)"
    using lod_stride_defined [OF assms(1)] by blast
  have a: "l = (if tile_screen_size z < LOD_PIXEL_THRESHOLD
                then \<lceil>LOD_PIXEL_THRESHOLD / tile_screen_size z\<rceil> else 1)
           \<or> (tile_screen_size z < LOD_PIXEL_THRESHOLD
               \<and> l = \<lceil>LOD_PIXEL_THRESHOLD / tile_screen_size z\<rceil> - 1
               \<and> of_int l < LOD_PIXEL_THRESHOLD / tile_screen_size z
               \<and> LOD_PIXEL_THRESHOLD / tile_screen_size z * (1 - 1 / 2 ^ 24) \<le> of_int l)"
  proof (cases "tile_screen_size z < LOD_PIXEL_THRESHOLD")
    case True
    from lod_stride_accuracy [OF assms(1) True] l(3) True show ?thesis
      by auto
  next
    case False
    with l(3) show ?thesis by simp
  qed
  from l a have "\<exists>l. lod_stride z = Some l \<and> 1 \<le> l
                \<and> l = (if tile_screen_size z < LOD_PIXEL_THRESHOLD
                       then \<lceil>f_div LOD_PIXEL_THRESHOLD (tile_screen_size z)\<rceil> else 1)
                \<and> (l = (if tile_screen_size z < LOD_PIXEL_THRESHOLD
                         then \<lceil>LOD_PIXEL_THRESHOLD / tile_screen_size z\<rceil> else 1)
                    \<or> (tile_screen_size z < LOD_PIXEL_THRESHOLD
                        \<and> l = \<lceil>LOD_PIXEL_THRESHOLD / tile_screen_size z\<rceil> - 1
                        \<and> of_int l < LOD_PIXEL_THRESHOLD / tile_screen_size z
                        \<and> LOD_PIXEL_THRESHOLD / tile_screen_size z * (1 - 1 / 2 ^ 24)
                            \<le> of_int l))"
    by blast
  with t1 t2 ex1 lod_stride_tenth show ?thesis
    by (intro conjI)
qed

theorem lod_stride_within_rounding_witness:
  "MIN_ZOOM \<le> 1 / 16 \<and> 1 / 16 \<le> MAX_ZOOM \<and> round_f32 (1 / 16) = 1 / 16
   \<and> tile_screen_size (1 / 16) = 2 \<and> tile_screen_size (1 / 16) < LOD_PIXEL_THRESHOLD
   \<and> lod_stride (1 / 16) = Some 4
   \<and> \<lceil>LOD_PIXEL_THRESHOLD / tile_screen_size (1 / 16)\<rceil> = 4"
proof -
  have h1: "MIN_ZOOM \<le> 1 / 16" by (simp add: MIN_ZOOM_value)
  have h2: "(1 / 16 :: real) \<le> MAX_ZOOM" by (simp add: MAX_ZOOM_def)
  have r: "round_f32 (1 / 16) = 1 / 16"
    by (rule round_f32_representable [of _ 1 "- 4"]) (simp_all add: power_int_minus)
  have "round_f32 (of_int 4) = of_int 4" by (rule round_f32_int) simp
  then have q: "f_div 8 2 = 4" by (simp add: f_div_def)
  from lod_stride_within_rounding [OF h1 h2] r
  have t: "tile_screen_size (1 / 16) = 2"
    by (simp add: TILE_WIDTH_def)
  from lod_stride_within_rounding [OF h1 h2] h1 h2 r t q show ?thesis
    by (auto simp add: LOD_PIXEL_THRESHOLD_def)
qed

subsection \<open>The shift count found by \<open>main\<close>\<close>

lemma shift_loop_steps:
  "j \<le> k \<Longrightarrow> k \<le> 30 \<Longrightarrow> shift_loop (2 ^ k) (k - j) = Some k"
proof (induction j)
  case 0
  then show ?case
    using shift_loop.simps [of "2 ^ k" k] by (simp add: push_bit_eq_mult)
next
  case (Suc j)
  then have lt: "(2::int) ^ (k - Suc j) < 2 ^ k"
    by (intro power_strict_increasing) auto
  have small: "\<not> 31 \<le> k - Suc j"
    using Suc.prems by arith
  have "shift_loop (2 ^ k) (k - Suc j) = shift_loop (2 ^ k) (Suc (k - Suc j))"
    using small lt shift_loop.simps [of "2 ^ k" "k - Suc j"]
    by (simp add: push_bit_eq_mult)
  also have "Suc (k - Suc j) = k - j"
    using Suc.prems by simp
  finally show ?case
    using Suc by simp
qed

lemma shift_loop_pow2: "k \<le> 30 \<Longrightarrow> shift_loop (2 ^ k) 0 = Some k"
  using shift_loop_steps [of k k] by simp

lemma pow2_and_pred: "(2::int) ^ k AND (2 ^ k - 1) = 0"
proof -
  have "(2::int) ^ k AND mask k = take_bit k (2 ^ k)"
    by (simp add: take_bit_eq_mask)
  also have "\<dots> = 0"
    by (simp add: take_bit_eq_mod)
  finally show ?thesis by (simp add: mask_eq_exp_minus_1)
qed

lemma main_shift_setup_pow2:
  "k \<le> 30 \<Longrightarrow> cols ts = 2 ^ k \<Longrightarrow>
   main_shift_setup ts = Some (ts\<lparr>use_shift := True, shift_bits := int k\<rparr>)"
  by (simp add: main_shift_setup_def pow2_and_pred shift_loop_pow2)

lemma and_pow2_pred: "i AND (2 ^ k - 1) = i mod 2 ^ k" for i :: int
  by (simp flip: mask_eq_exp_minus_1 take_bit_eq_mask add: take_bit_eq_mod)

lemma pow2_is_power_of_two: "is_power_of_two (2 ^ k)"
  by (simp add: is_power_of_two_def pow2_and_pred)

lemma and_pred_odd:
  fixes x :: int
  assumes "odd x" and "1 < x"
  shows "x AND (x - 1) \<noteq> 0"
proof -
  from assms(1) obtain m where m: "x = 2 * m + 1" by (elim oddE)
  with assms(2) have mp: "0 < m" by simp
  have "x AND (x - 1) = (1 + 2 * m) AND (2 * m)"
    by (simp add: m add.commute)
  also have "\<dots> = 2 * (m AND m)"
    by (simp add: and_int_rec [of "1 + 2 * m" "2 * m"])
  finally show ?thesis using mp by simp
qed

lemma and_pred_even:
  "(2 * m) AND (2 * m - 1) = 2 * (m AND (m - 1))" for m :: int
proof -
  have d: "(2 * m - 1) div 2 = m - 1" by presburger
  show ?thesis
    by (subst and_int_rec) (simp add: d)
qed

lemma is_power_of_two_exp:
  "is_power_of_two x \<Longrightarrow> \<exists>k. x = 2 ^ k"
proof (induction "nat x" arbitrary: x rule: less_induct)
  case less
  from less.prems have pos: "0 < x" and a: "x AND (x - 1) = 0"
    by (simp_all add: is_power_of_two_def)
  show ?case
  proof (cases "x = 1")
    case True
    then have "x = 2 ^ 0" by simp
    then show ?thesis by blast
  next
    case False
    with pos have gt: "1 < x" by simp
    have ev: "even x"
      using and_pred_odd [OF _ gt] a by blast
    then obtain m where m: "x = 2 * m" by (elim evenE)
    with gt have mp: "0 < m" by simp
    from a have "m AND (m - 1) = 0"
      by (simp add: m and_pred_even)
    with mp have "is_power_of_two m" by (simp add: is_power_of_two_def)
    moreover have "nat m < nat x" using m mp by simp
    ultimately obtain k where "m = 2 ^ k" using less.hyps by blast
    then have "x = 2 ^ Suc k" by (simp add: m)
    then show ?thesis by blast
  qed
qed

lemma is_power_of_two_int32:
  assumes "is_power_of_two x" and "x \<le> INT_MAX"
  shows "\<exists>k\<le>30. x = 2 ^ k"
proof -
  from is_power_of_two_exp [OF assms(1)] obtain k where k: "x = 2 ^ k" by blast
  have "k \<le> 30"
  proof (rule ccontr)
    assume "\<not> k \<le> 30"
    then have "31 \<le> k" by simp
    then have "(2::int) ^ 31 \<le> 2 ^ k" by (intro power_increasing) simp_all
    with assms(2) k show False by (simp add: INT_MAX_def)
  qed
  with k show ?thesis by blast
qed

text \<open>
  \<open>load_tileset\<close> stores the shift count as \<open>(int)log2f((float)cols)\<close>. For a power of two
  the logarithm is the exponent, so the count is the one that the loop of \<open>main\<close> finds
  again: \<open>main\<close> leaves the tileset as \<open>load_tileset\<close> returned it. A 256 by 128 atlas
  has 8 columns, 4 rows and the shift count 3.
\<close>

lemma log2f_pow2: "k \<le> 30 \<Longrightarrow> float_to_int (log2f (int_to_float (2 ^ k))) = Some (int k)"
proof -
  assume k: "k \<le> 30"
  have "round_f32 (of_int 1 * 2 powi int k) = of_int 1 * 2 powi int k"
    by (rule round_f32_representable [of _ 1 "int k"]) simp_all
  then have i: "int_to_float (2 ^ k) = 2 ^ k"
    by (simp add: int_to_float_def)
  have l: "log 2 (2 ^ k) = real k"
    by simp
  have "round_f32 (of_int (int k)) = of_int (int k)"
    using k by (intro round_f32_int) simp
  then have "log2f (2 ^ k) = of_int (int k)"
    by (simp add: log2f_def l)
  moreover have "is_int32 (int k)"
    using k by (simp add: is_int32_def INT_MIN_def INT_MAX_def)
  then have "float_to_int (of_int (int k)) = Some (int k)"
    by (rule float_to_int_of_int)
  ultimately show ?thesis
    by (simp only: i)
qed

lemma load_tileset_shift_bits:
  "load_tileset initial_tileset (Some (256, 128))
     = Inr (initial_tileset\<lparr>cols := 8, rows := 4, use_shift := True, shift_bits := 3\<rparr>)"
proof -
  have p: "is_power_of_two 8" using pow2_is_power_of_two [of 3] by simp
  have l: "float_to_int (log2f (int_to_float 8)) = Some 3"
    using log2f_pow2 [of 3] by simp
  show ?thesis
    by (simp add: load_tileset_def initial_tileset_def TILE_WIDTH_def TILE_HEIGHT_def
        c_div_def c_quot_def INT_MIN_def p l)
qed

lemma load_tileset_agrees_with_main:
  assumes "k \<le> 30" and "c_div w (tile_width ts) = Some (2 ^ k)"
    and "c_div h (tile_height ts) = Some r"
  shows "\<exists>ts'. load_tileset ts (Some (w, h)) = Inr ts' \<and> main_shift_setup ts' = Some ts'"
proof -
  let ?ts = "ts\<lparr>cols := 2 ^ k, rows := r, use_shift := True, shift_bits := int k\<rparr>"
  have l: "load_tileset ts (Some (w, h)) = Inr ?ts"
    using assms log2f_pow2 [OF assms(1)]
    by (simp add: load_tileset_def pow2_is_power_of_two)
  have "main_shift_setup ?ts = Some (?ts\<lparr>use_shift := True, shift_bits := int k\<rparr>)"
    using assms(1) by (intro main_shift_setup_pow2) simp_all
  then have "main_shift_setup ?ts = Some ?ts" by simp
  with l show ?thesis by blast
qed

text \<open>
  C2. When the column count is an exact power of two (by the test of
  \<open>is_power_of_two\<close>, and an \<open>int\<close>), the setup of \<open>main\<close> selects the shift path
  with a shift count \<open>k\<close> such that \<open>2 ^ k\<close> is the column count, and for every tile index
  from 0 below \<open>columns * rows\<close> the shift-based decomposition of \<open>draw_tile\<close> equals the
  division/modulo decomposition, both as \<open>draw_tile\<close> computes it on its other path
  and as the specification words it.
\<close>

theorem shift_decomposition_equals_divmod:
  assumes "is_power_of_two (cols ts)" and "cols ts \<le> INT_MAX"
    and "0 \<le> i" and "i < cols ts * rows ts"
  shows "\<exists>ts' k. main_shift_setup ts = Some ts' \<and> use_shift ts' \<and> shift_bits ts' = int k
           \<and> cols ts = 2 ^ k
           \<and> atlas_cell ts' i = Some (atlas_cell_spec (cols ts) i)
           \<and> atlas_cell (ts'\<lparr>use_shift := False\<rparr>) i = atlas_cell ts' i"
proof -
  obtain k where k: "k \<le> 30" and c: "cols ts = 2 ^ k"
    using is_power_of_two_int32 [OF assms(1,2)] by blast
  let ?ts = "ts\<lparr>use_shift := True, shift_bits := int k\<rparr>"
  have init: "main_shift_setup ts = Some ?ts"
    using k c by (rule main_shift_setup_pow2)
  have pos: "(0::int) < 2 ^ k" by simp
  have fast: "atlas_cell ?ts i = Some (i mod 2 ^ k, i div 2 ^ k)"
    using k c by (simp add: atlas_cell_def and_pow2_pred drop_bit_eq_div)
  have slow: "atlas_cell (?ts\<lparr>use_shift := False\<rparr>) i = Some (i mod 2 ^ k, i div 2 ^ k)"
    using c assms(3) pos by (simp add: atlas_cell_def c_mod_nonneg c_div_nonneg)
  have "main_shift_setup ts = Some ?ts \<and> use_shift ?ts \<and> shift_bits ?ts = int k
           \<and> cols ts = 2 ^ k
           \<and> atlas_cell ?ts i = Some (atlas_cell_spec (cols ts) i)
           \<and> atlas_cell (?ts\<lparr>use_shift := False\<rparr>) i = atlas_cell ?ts i"
    using init fast slow c by (simp add: atlas_cell_spec_def)
  then show ?thesis by blast
qed

theorem shift_decomposition_equals_divmod_witness:
  "\<exists>ts' k. main_shift_setup \<lparr>tile_width = 32, tile_height = 32, rows = 4, cols = 8,
                              use_shift = False, shift_bits = 0\<rparr> = Some ts'
         \<and> use_shift ts' \<and> shift_bits ts' = int k \<and> (8 :: int) = 2 ^ k
         \<and> atlas_cell ts' 29 = Some (5, 3)
         \<and> atlas_cell (ts'\<lparr>use_shift := False\<rparr>) 29 = atlas_cell ts' 29"
proof -
  let ?ts = "\<lparr>tile_width = 32, tile_height = 32, rows = 4, cols = 8,
            use_shift = False, shift_bits = 0\<rparr>"
  have p: "is_power_of_two (cols ?ts)"
    using pow2_is_power_of_two [of 3] by simp
  have "\<exists>ts' k. main_shift_setup ?ts = Some ts' \<and> use_shift ts' \<and> shift_bits ts' = int k
           \<and> cols ?ts = 2 ^ k
           \<and> atlas_cell ts' 29 = Some (atlas_cell_spec (cols ?ts) 29)
           \<and> atlas_cell (ts'\<lparr>use_shift := False\<rparr>) 29 = atlas_cell ts' 29"
    using p by (rule shift_decomposition_equals_divmod) (simp_all add: INT_MAX_def)
  then show ?thesis
    by (simp add: atlas_cell_spec_def)
qed

subsection \<open>Alignment of the first sampled tile\<close>

text \<open>
  C6. For every clamped minimum \<open>min_x \<ge> 0\<close> and every stride \<open>lod \<ge> 1\<close> the start
  coordinate \<open>(min_x / lod) * lod\<close> is defined, equals \<open>floor (min_x / lod) * lod\<close>,
  is a multiple of the stride (also for the remainder operator of C), is at most
  \<open>min_x\<close> and is greater than \<open>min_x - lod\<close>. The y axis uses the same function.
\<close>

theorem align_start_aligned:
  assumes "0 \<le> min_c" and "1 \<le> lod"
  shows "\<exists>s. align_start min_c lod = Some s
           \<and> s = \<lfloor>real_of_int min_c / real_of_int lod\<rfloor> * lod
           \<and> s mod lod = 0 \<and> c_mod s lod = Some 0
           \<and> s \<le> min_c \<and> min_c - lod < s"
proof -
  let ?s = "min_c div lod * lod"
  have pos: "0 < lod" using assms(2) by simp
  have def: "align_start min_c lod = Some ?s"
    using assms(1) pos by (simp add: align_start_def c_div_nonneg)
  have fl: "?s = \<lfloor>real_of_int min_c / real_of_int lod\<rfloor> * lod"
    by (simp add: floor_divide_of_int_eq)
  have nonneg: "0 \<le> ?s"
    using assms(1) pos by (simp add: pos_imp_zdiv_nonneg_iff)
  have m: "?s mod lod = 0" by simp
  have cm: "c_mod ?s lod = Some 0"
    using c_mod_nonneg [OF nonneg pos] by simp
  have split: "min_c = ?s + min_c mod lod"
    by simp
  have "0 \<le> min_c mod lod"
    using pos by simp
  with split have le: "?s \<le> min_c" by linarith
  have "min_c mod lod < lod"
    using pos by (rule pos_mod_bound)
  with split have gt: "min_c - lod < ?s" by linarith
  show ?thesis
    by (intro exI [of _ ?s] conjI def fl m cm le gt)
qed

theorem align_start_aligned_witness:
  "\<exists>s. align_start 475 3 = Some s \<and> s = \<lfloor>real_of_int 475 / real_of_int 3\<rfloor> * 3
       \<and> s mod 3 = 0 \<and> c_mod s 3 = Some 0 \<and> s \<le> 475 \<and> 475 - 3 < s"
  using align_start_aligned [of 475 3] by simp

subsection \<open>The visible range\<close>

lemma round_f32_abs_le:
  assumes "\<bar>x\<bar> \<le> B"
  shows "\<bar>round_f32 x\<bar> \<le> B + B / 2 ^ 24 + 1 / 2 ^ 150"
proof -
  have "\<bar>round_f32 x - x\<bar> \<le> \<bar>x\<bar> / 2 ^ 24 + 1 / 2 ^ 150"
    by (rule round_f32_error)
  moreover have "\<bar>x\<bar> / 2 ^ 24 \<le> B / 2 ^ 24"
    using assms by (simp add: divide_right_mono)
  ultimately show ?thesis using assms by linarith
qed

lemma float_to_int_floorf:
  assumes "\<bar>d\<bar> \<le> 2 ^ 31 - 2"
  shows "float_to_int (floorf d) = Some \<lfloor>d\<rfloor>"
proof -
  have "- (2 ^ 31) \<le> \<lfloor>d\<rfloor>" "\<lfloor>d\<rfloor> \<le> 2 ^ 31 - 1"
    using assms by (simp_all add: le_floor_iff floor_le_iff abs_le_iff)
  then show ?thesis
    unfolding floorf_def
    by (intro float_to_int_of_int) (simp add: is_int32_def INT_MIN_def INT_MAX_def)
qed

lemma float_to_int_ceilf:
  assumes "\<bar>d\<bar> \<le> 2 ^ 31 - 2"
  shows "float_to_int (ceilf d) = Some \<lceil>d\<rceil>"
proof -
  have "- (2 ^ 31) \<le> \<lceil>d\<rceil>" "\<lceil>d\<rceil> \<le> 2 ^ 31 - 1"
    using assms by (simp_all add: le_ceiling_iff ceiling_le_iff abs_le_iff)
  then show ?thesis
    unfolding ceilf_def
    by (intro float_to_int_of_int) (simp add: is_int32_def INT_MIN_def INT_MAX_def)
qed

lemma raw_min_magnitude:
  assumes "\<bar>off\<bar> \<le> 2 ^ 36 - 2 ^ 20"
  shows "\<bar>f_div (- off) 32\<bar> \<le> 2 ^ 31 - 2"
proof -
  have "\<bar>- off / 32\<bar> \<le> 2 ^ 31 - 2 ^ 15"
    using assms by simp
  from round_f32_abs_le [OF this] show ?thesis
    by (simp add: f_div_def)
qed

lemma raw_max_magnitude:
  assumes "0 < w" and "0 < z" and "of_int w / z + \<bar>off\<bar> \<le> 2 ^ 36 - 2 ^ 20"
  shows "\<bar>f_div (f_sub (f_div (int_to_float w) z) off) 32\<bar> \<le> 2 ^ 31 - 2"
proof -
  define A where "A = real_of_int w / z"
  define q where "q = f_div (int_to_float w) z"
  have A0: "0 \<le> A" using assms(1,2) by (simp add: A_def)
  have A1: "A \<le> 2 ^ 36" and s: "A + \<bar>off\<bar> \<le> 2 ^ 36 - 2 ^ 20"
    using assms(3) by (simp_all add: A_def)
  have "\<bar>int_to_float w - of_int w\<bar> \<le> \<bar>real_of_int w\<bar> / 2 ^ 24"
    by (rule int_to_float_error)
  then have "\<bar>int_to_float w - of_int w\<bar> / z \<le> \<bar>real_of_int w\<bar> / 2 ^ 24 / z"
    using assms(2) by (intro divide_right_mono) simp_all
  moreover have "\<bar>int_to_float w - of_int w\<bar> / z = \<bar>int_to_float w / z - A\<bar>"
    using assms(2) by (simp add: A_def diff_divide_distrib [symmetric] abs_divide)
  moreover have "\<bar>real_of_int w\<bar> / 2 ^ 24 / z = A / 2 ^ 24"
    using assms(1) by (simp add: A_def)
  ultimately have e1: "\<bar>int_to_float w / z - A\<bar> \<le> A / 2 ^ 24" by simp
  have "A / 2 ^ 24 \<le> 4096" using A1 by simp
  with e1 have e1': "\<bar>int_to_float w / z - A\<bar> \<le> 4096" by linarith
  have A1': "A \<le> 68719476736" using A1 by simp
  have b1: "\<bar>int_to_float w / z\<bar> \<le> 2 ^ 37"
    using e1' A0 A1' by simp
  have "\<bar>q - int_to_float w / z\<bar> \<le> \<bar>int_to_float w / z\<bar> / 2 ^ 24 + 1 / 2 ^ 150"
    unfolding q_def f_div_def by (rule round_f32_error)
  moreover have "\<bar>int_to_float w / z\<bar> / 2 ^ 24 \<le> 2 ^ 13"
    using b1 by simp
  ultimately have "\<bar>q - int_to_float w / z\<bar> \<le> 2 ^ 13 + 1" by simp
  with e1' have "\<bar>q - A\<bar> \<le> 2 ^ 14" by simp
  with s A0 have "\<bar>q - off\<bar> \<le> 2 ^ 36 - 2 ^ 20 + 2 ^ 14" by linarith
  from round_f32_abs_le [OF this]
  have "\<bar>f_sub q off\<bar> \<le> 2 ^ 36 - 2 ^ 20 + 2 ^ 15"
    by (simp add: f_sub_def)
  then have "\<bar>f_sub q off / 32\<bar> \<le> 2 ^ 31 - 2 ^ 15 + 2 ^ 10"
    by simp
  from round_f32_abs_le [OF this] show ?thesis
    by (simp add: f_div_def q_def)
qed

lemma raw_bounds_defined:
  assumes "0 < zoom s" and "0 < screen_w" and "0 < screen_h"
    and "of_int screen_w / zoom s + \<bar>offset_x s\<bar> \<le> 2 ^ 36 - 2 ^ 20"
    and "of_int screen_h / zoom s + \<bar>offset_y s\<bar> \<le> 2 ^ 36 - 2 ^ 20"
  shows "\<exists>r. raw_bounds s screen_w screen_h = Some r"
proof -
  have "0 \<le> real_of_int screen_w / zoom s" "0 \<le> real_of_int screen_h / zoom s"
    using assms(1,2,3) by simp_all
  then have o: "\<bar>offset_x s\<bar> \<le> 2 ^ 36 - 2 ^ 20" "\<bar>offset_y s\<bar> \<le> 2 ^ 36 - 2 ^ 20"
    using assms(4,5) by linarith+
  show ?thesis
    using float_to_int_floorf [OF raw_min_magnitude [OF o(1)]]
      float_to_int_floorf [OF raw_min_magnitude [OF o(2)]]
      float_to_int_ceilf [OF raw_max_magnitude [OF assms(2,1,4)]]
      float_to_int_ceilf [OF raw_max_magnitude [OF assms(3,1,5)]]
    by (simp add: raw_bounds_def TILE_WIDTH_def TILE_HEIGHT_def int_to_float_32)
qed

lemma visible_bounds_clamps:
  assumes "visible_bounds s screen_w screen_h = Some b"
  shows "0 \<le> min_x b \<and> max_x b \<le> MAP_WIDTH \<and> 0 \<le> min_y b \<and> max_y b \<le> MAP_HEIGHT"
  using assms by (auto simp add: visible_bounds_def raw_bounds_def clamp_bounds_def split: Option.bind_splits)

text \<open>
  Beyond that magnitude the cast is undefined. At \<open>offset_x = - 2 ^ 36\<close> the raw minimum
  is \<open>2 ^ 31\<close>, which is not an \<open>int\<close>; on a screen \<open>2 ^ 27\<close> pixels wide at zoom
  \<open>1 / 512\<close> the raw maximum is.
\<close>

lemma raw_bounds_undefined_offset:
  "raw_bounds \<lparr>offset_x = - (2 ^ 36), offset_y = 0, zoom = 1, dragging = False,
               last_mouse_x = 0, last_mouse_y = 0, running = True\<rparr> 800 600 = None"
proof -
  have "round_f32 (of_int 1 * 2 powi 31) = of_int 1 * 2 powi 31"
    by (rule round_f32_representable [of _ 1 31]) simp_all
  then have "f_div (- (- (2 ^ 36))) (int_to_float TILE_WIDTH) = 2 ^ 31"
    by (simp add: f_div_def TILE_WIDTH_def int_to_float_32)
  then have "float_to_int (floorf (f_div (- (- (2 ^ 36))) (int_to_float TILE_WIDTH))) = None"
    by (simp add: floorf_def float_to_int_def c_trunc_def is_int32_def INT_MAX_def)
  then show ?thesis
    by (simp add: raw_bounds_def)
qed

lemma raw_bounds_undefined_screen:
  "MIN_ZOOM \<le> 1 / 512 \<and> 1 / 512 \<le> MAX_ZOOM
   \<and> raw_bounds \<lparr>offset_x = 0, offset_y = 0, zoom = 1 / 512, dragging = False,
               last_mouse_x = 0, last_mouse_y = 0, running = True\<rparr> (2 ^ 27) 600 = None"
proof -
  have a: "round_f32 (of_int 1 * 2 powi 27) = of_int 1 * 2 powi 27"
    by (rule round_f32_representable [of _ 1 27]) simp_all
  have b: "round_f32 (of_int 1 * 2 powi 36) = of_int 1 * 2 powi 36"
    by (rule round_f32_representable [of _ 1 36]) simp_all
  have c: "round_f32 (of_int 1 * 2 powi 31) = of_int 1 * 2 powi 31"
    by (rule round_f32_representable [of _ 1 31]) simp_all
  have i: "int_to_float 134217728 = 134217728"
    using a by (simp add: int_to_float_def)
  have q: "f_div 134217728 (1 / 512) = 68719476736"
    using b by (simp add: f_div_def)
  have d: "f_sub 68719476736 0 = 68719476736"
    using b by (simp add: f_sub_def)
  have e: "f_div 68719476736 32 = 2147483648"
    using c by (simp add: f_div_def)
  have z: "f_div 0 32 = 0"
    by (simp add: f_div_def round_f32_0)
  have n: "float_to_int (ceilf 2147483648) = None"
    by (simp add: ceilf_def float_to_int_def c_trunc_def is_int32_def INT_MAX_def)
  have m: "float_to_int (floorf 0) = Some 0"
    by (simp add: floorf_def float_to_int_def c_trunc_def is_int32_def INT_MIN_def INT_MAX_def)
  have "raw_bounds \<lparr>offset_x = 0, offset_y = 0, zoom = 1 / 512, dragging = False,
               last_mouse_x = 0, last_mouse_y = 0, running = True\<rparr> (2 ^ 27) 600 = None"
    by (simp add: raw_bounds_def TILE_WIDTH_def TILE_HEIGHT_def int_to_float_32 i q d e z n m)
  then show ?thesis
    by (simp add: MIN_ZOOM_value MAX_ZOOM_def)
qed

text \<open>
  The raw bounds are the floor and the ceiling of the \<open>float\<close> quotients. The raw
  minimum never exceeds the raw maximum; it lies within the grid exactly when the offset
  is above \<open>- (MAP_WIDTH + 1) * TILE_WIDTH\<close>; the raw maximum is not negative when the
  offset is at most the screen extent in world units, and only when it is less than one
  tile more.
\<close>

lemma c_trunc_of_int: "c_trunc (of_int n) = n"
  by (simp add: c_trunc_def)

lemma float_to_int_floorf_Some: "float_to_int (floorf d) = Some n \<Longrightarrow> n = \<lfloor>d\<rfloor>"
  by (simp add: float_to_int_def floorf_def c_trunc_of_int split: if_splits)

lemma float_to_int_ceilf_Some: "float_to_int (ceilf d) = Some n \<Longrightarrow> n = \<lceil>d\<rceil>"
  by (simp add: float_to_int_def ceilf_def c_trunc_of_int split: if_splits)

lemma raw_bounds_values:
  assumes "raw_bounds s screen_w screen_h = Some r"
  shows "min_x r = \<lfloor>f_div (- offset_x s) 32\<rfloor>"
    and "min_y r = \<lfloor>f_div (- offset_y s) 32\<rfloor>"
    and "max_x r = \<lceil>f_div (f_sub (f_div (int_to_float screen_w) (zoom s)) (offset_x s)) 32\<rceil>"
    and "max_y r = \<lceil>f_div (f_sub (f_div (int_to_float screen_h) (zoom s)) (offset_y s)) 32\<rceil>"
  using assms
  by (auto simp add: raw_bounds_def TILE_WIDTH_def TILE_HEIGHT_def int_to_float_32
      split: Option.bind_splits dest!: float_to_int_floorf_Some float_to_int_ceilf_Some)

lemma screen_quotient_nonneg:
  assumes "0 < w" and "0 < z"
  shows "0 \<le> f_div (int_to_float w) z"
proof -
  have "0 \<le> int_to_float w"
    unfolding int_to_float_def using assms(1) by (intro round_f32_nonneg) simp
  then have "0 \<le> int_to_float w / z" using assms(2) by simp
  then show ?thesis unfolding f_div_def by (rule round_f32_nonneg)
qed

lemma raw_min_le_max:
  assumes "0 \<le> q" and "round_f32 off = off"
  shows "\<lfloor>f_div (- off) 32\<rfloor> \<le> \<lceil>f_div (f_sub q off) 32\<rceil>"
proof -
  have "round_f32 (- off) \<le> round_f32 (q - off)"
    using assms(1) by (intro round_f32_mono) simp
  then have "- off \<le> f_sub q off"
    by (simp add: round_f32_minus assms(2) f_sub_def)
  then have "- off / 32 \<le> f_sub q off / 32" by simp
  then have "f_div (- off) 32 \<le> f_div (f_sub q off) 32"
    unfolding f_div_def by (rule round_f32_mono)
  moreover have "of_int \<lfloor>f_div (- off) 32\<rfloor> \<le> f_div (- off) 32" by simp
  moreover have "f_div (f_sub q off) 32 \<le> of_int \<lceil>f_div (f_sub q off) 32\<rceil>" by simp
  ultimately have "real_of_int \<lfloor>f_div (- off) 32\<rfloor> \<le> of_int \<lceil>f_div (f_sub q off) 32\<rceil>"
    by linarith
  then show ?thesis by (simp only: of_int_le_iff)
qed

lemma round_f32_1001: "round_f32 1001 = 1001"
  using round_f32_int [of 1001] by simp

lemma round_f32_1000: "round_f32 1000 = 1000"
  using round_f32_int [of 1000] by simp

lemma raw_min_in_grid:
  assumes "round_f32 off = off"
  shows "(\<lfloor>f_div (- off) 32\<rfloor> \<le> 1000) = (- 32032 < off)"
proof
  assume "\<lfloor>f_div (- off) 32\<rfloor> \<le> 1000"
  then have lt: "f_div (- off) 32 < 1001"
    by (simp add: floor_le_iff)
  show "- 32032 < off"
  proof (rule ccontr)
    assume "\<not> - 32032 < off"
    then have "1001 \<le> - off / 32" by simp
    then have "round_f32 1001 \<le> round_f32 (- off / 32)" by (rule round_f32_mono)
    with lt show False by (simp add: f_div_def round_f32_1001)
  qed
next
  assume a: "- 32032 < off"
  have "f_div (- off) 32 < 1001"
  proof (cases "- 32000 \<le> off")
    case True
    then have "- off / 32 \<le> 1000" by simp
    then have "round_f32 (- off / 32) \<le> round_f32 1000" by (rule round_f32_mono)
    then show ?thesis by (simp add: f_div_def round_f32_1000)
  next
    case False
    then have b: "16384 \<le> \<bar>off\<bar>" "\<bar>off\<bar> < 32768" using a by simp_all
    have e: "f32_exp off = 14"
      using b by (intro f32_exp_eqI) simp_all
    define m where "m = rne (off / 2 powi (- 9))"
    have o: "off = of_int m * 2 powi (- 9)"
      using round_f32_unfold [of off] by (simp add: assms e m_def)
    have "\<bar>of_int m * 2 powi (- 9) :: real\<bar> < 32768"
      using b(2) o by simp
    then have "\<bar>real_of_int m\<bar> < 2 ^ 24"
      by (simp add: abs_mult power_int_minus field_simps)
    then have m: "\<bar>m\<bar> < 2 ^ 24"
      by (metis of_int_abs of_int_less_iff of_int_numeral of_int_power)
    have "- off / 32 = of_int (- m) * 2 powi (- 14)"
      by (subst o) (simp add: power_int_minus)
    then have "round_f32 (- off / 32) = - off / 32"
      using m by (intro round_f32_representable [of _ "- m" "- 14"]) simp_all
    then show ?thesis using a by (simp add: f_div_def)
  qed
  then show "\<lfloor>f_div (- off) 32\<rfloor> \<le> 1000"
    by (simp add: floor_le_iff)
qed

lemma round_f32_m1: "round_f32 (- 1) = - 1"
  using round_f32_int [of "- 1"] by simp

lemma raw_max_nonneg:
  "off \<le> q \<Longrightarrow> 0 \<le> \<lceil>f_div (f_sub q off) 32\<rceil>"
proof -
  assume "off \<le> q"
  then have "0 \<le> q - off" by simp
  then have "0 \<le> f_sub q off" unfolding f_sub_def by (rule round_f32_nonneg)
  then have "0 \<le> f_sub q off / 32" by simp
  then have "0 \<le> f_div (f_sub q off) 32" unfolding f_div_def by (rule round_f32_nonneg)
  then show ?thesis by (simp add: le_ceiling_iff)
qed

lemma round_f32_m32: "round_f32 (- 32) = - 32"
  using round_f32_int [of "- 32"] by simp

lemma raw_max_nonneg_only:
  assumes "0 \<le> \<lceil>f_div (f_sub q off) 32\<rceil>"
  shows "off < q + 32"
proof (rule ccontr)
  assume "\<not> off < q + 32"
  then have "q - off \<le> - 32" by simp
  then have "round_f32 (q - off) \<le> round_f32 (- 32)" by (rule round_f32_mono)
  then have "f_sub q off / 32 \<le> - 1" by (simp add: f_sub_def round_f32_m32)
  then have "round_f32 (f_sub q off / 32) \<le> round_f32 (- 1)" by (rule round_f32_mono)
  then have "f_div (f_sub q off) 32 \<le> - 1" by (simp add: f_div_def round_f32_m1)
  then have "\<lceil>f_div (f_sub q off) 32\<rceil> \<le> - 1"
    by (simp add: ceiling_le_iff)
  with assms show False by linarith
qed

lemma clamp_bounds_range:
  "0 \<le> min_x (clamp_bounds r) \<and> max_x (clamp_bounds r) \<le> MAP_WIDTH
   \<and> 0 \<le> min_y (clamp_bounds r) \<and> max_y (clamp_bounds r) \<le> MAP_HEIGHT"
  by (simp add: clamp_bounds_def)

lemma clamp_bounds_order_x:
  "min_x r \<le> max_x r \<Longrightarrow>
   (min_x (clamp_bounds r) \<le> max_x (clamp_bounds r)) = (min_x r \<le> MAP_WIDTH \<and> 0 \<le> max_x r)"
  by (auto simp add: clamp_bounds_def MAP_WIDTH_def)

lemma clamp_bounds_order_y:
  "min_y r \<le> max_y r \<Longrightarrow>
   (min_y (clamp_bounds r) \<le> max_y (clamp_bounds r)) = (min_y r \<le> MAP_HEIGHT \<and> 0 \<le> max_y r)"
  by (auto simp add: clamp_bounds_def MAP_HEIGHT_def)

text \<open>
  C4, as stated, fails. With the camera panned to the right of the grid
  (\<open>offset_x = - 100000\<close> at zoom 1 on an 800 by 600 screen) the clamped minimum is
  3125: greater than the clamped maximum 1000 and greater than the grid width.
\<close>

theorem visible_bounds_not_valid:
  "visible_bounds \<lparr>offset_x = - 100000, offset_y = 0, zoom = 1, dragging = False,
               last_mouse_x = 0, last_mouse_y = 0, running = True\<rparr> 800 600
     = Some \<lparr>min_x = 3125, min_y = 0, max_x = 1000, max_y = 19\<rparr>
   \<and> \<not> bounds_valid \<lparr>min_x = 3125, min_y = 0, max_x = 1000, max_y = 19\<rparr>"
proof -
  have c: "\<lceil>75 / 4 :: real\<rceil> = 19" by linarith
  show ?thesis
    by (simp add: visible_bounds_def raw_bounds_def clamp_bounds_def bounds_valid_def f32_eval config_defs c)
qed

text \<open>
  C4, amended. For every \<open>float\<close> camera offset, every zoom between \<open>MIN_ZOOM\<close> and
  \<open>MAX_ZOOM\<close> and every positive screen size: the casts are defined when
  \<open>screen / zoom + \<bar>offset\<bar>\<close> is at most \<open>2 ^ 36 - 2 ^ 20\<close> on each axis, and whenever
  they are defined the resolved bounds satisfy \<open>0 \<le> min_x\<close>, \<open>max_x \<le> MAP_WIDTH\<close>,
  \<open>0 \<le> min_y\<close> and \<open>max_y \<le> MAP_HEIGHT\<close>. The bounds before the clamps are ordered,
  and the resolved bounds are valid (\<open>0 \<le> min \<le> max \<le> grid\<close> on both axes) exactly
  when on each axis the raw minimum is at most the grid dimension and the raw maximum is
  not negative. The first holds exactly when the offset is above
  \<open>- (grid + 1) * tile\<close>; the second holds when the offset is at most the
  \<open>float\<close> quotient \<open>screen / zoom\<close> and only when it is less than that quotient plus one
  tile. So the bounds are valid for every camera whose offsets lie between
  \<open>- (grid + 1) * tile\<close>, exclusive, and \<open>screen / zoom\<close>: the view then overlaps the
  grid or ends less than a tile away from it.
\<close>

theorem visible_bounds_validity:
  assumes "MIN_ZOOM \<le> zoom s" and "zoom s \<le> MAX_ZOOM" and "0 < screen_w" and "0 < screen_h"
    and "round_f32 (offset_x s) = offset_x s" and "round_f32 (offset_y s) = offset_y s"
  shows "(of_int screen_w / zoom s + \<bar>offset_x s\<bar> \<le> 2 ^ 36 - 2 ^ 20
          \<and> of_int screen_h / zoom s + \<bar>offset_y s\<bar> \<le> 2 ^ 36 - 2 ^ 20
          \<longrightarrow> (\<exists>r. raw_bounds s screen_w screen_h = Some r))
         \<and> (\<forall>r. raw_bounds s screen_w screen_h = Some r \<longrightarrow>
               visible_bounds s screen_w screen_h = Some (clamp_bounds r)
               \<and> 0 \<le> min_x (clamp_bounds r) \<and> max_x (clamp_bounds r) \<le> MAP_WIDTH
               \<and> 0 \<le> min_y (clamp_bounds r) \<and> max_y (clamp_bounds r) \<le> MAP_HEIGHT
               \<and> min_x r \<le> max_x r \<and> min_y r \<le> max_y r
               \<and> (bounds_valid (clamp_bounds r)
                    = (min_x r \<le> MAP_WIDTH \<and> 0 \<le> max_x r
                       \<and> min_y r \<le> MAP_HEIGHT \<and> 0 \<le> max_y r))
               \<and> ((min_x r \<le> MAP_WIDTH)
                    = (- of_int ((MAP_WIDTH + 1) * TILE_WIDTH) < offset_x s))
               \<and> ((min_y r \<le> MAP_HEIGHT)
                    = (- of_int ((MAP_HEIGHT + 1) * TILE_HEIGHT) < offset_y s))
               \<and> (offset_x s \<le> f_div (int_to_float screen_w) (zoom s) \<longrightarrow> 0 \<le> max_x r)
               \<and> (offset_y s \<le> f_div (int_to_float screen_h) (zoom s) \<longrightarrow> 0 \<le> max_y r)
               \<and> (0 \<le> max_x r
                    \<longrightarrow> offset_x s < f_div (int_to_float screen_w) (zoom s) + of_int TILE_WIDTH)
               \<and> (0 \<le> max_y r
                    \<longrightarrow> offset_y s < f_div (int_to_float screen_h) (zoom s) + of_int TILE_HEIGHT)
               \<and> (- of_int ((MAP_WIDTH + 1) * TILE_WIDTH) < offset_x s
                    \<and> offset_x s \<le> f_div (int_to_float screen_w) (zoom s)
                    \<and> - of_int ((MAP_HEIGHT + 1) * TILE_HEIGHT) < offset_y s
                    \<and> offset_y s \<le> f_div (int_to_float screen_h) (zoom s)
                    \<longrightarrow> bounds_valid (clamp_bounds r)))"
proof (intro conjI allI impI)
  have zpos: "0 < zoom s"
    using assms(1) by (simp add: MIN_ZOOM_value)
  show "\<exists>r. raw_bounds s screen_w screen_h = Some r"
    if "of_int screen_w / zoom s + \<bar>offset_x s\<bar> \<le> 2 ^ 36 - 2 ^ 20
        \<and> of_int screen_h / zoom s + \<bar>offset_y s\<bar> \<le> 2 ^ 36 - 2 ^ 20"
    using that raw_bounds_defined [OF zpos assms(3,4)] by blast
  fix r
  assume r: "raw_bounds s screen_w screen_h = Some r"
  define qx where "qx = f_div (int_to_float screen_w) (zoom s)"
  define qy where "qy = f_div (int_to_float screen_h) (zoom s)"
  note v = raw_bounds_values [OF r, folded qx_def qy_def]
  have q0: "0 \<le> qx" "0 \<le> qy"
    unfolding qx_def qy_def using assms(3,4) zpos by (simp_all add: screen_quotient_nonneg)
  show "visible_bounds s screen_w screen_h = Some (clamp_bounds r)"
    by (simp add: visible_bounds_def r)
  show "0 \<le> min_x (clamp_bounds r)" "max_x (clamp_bounds r) \<le> MAP_WIDTH"
    "0 \<le> min_y (clamp_bounds r)" "max_y (clamp_bounds r) \<le> MAP_HEIGHT"
    using clamp_bounds_range [of r] by simp_all
  show ox: "min_x r \<le> max_x r"
    unfolding v by (rule raw_min_le_max [OF q0(1) assms(5)])
  show oy: "min_y r \<le> max_y r"
    unfolding v by (rule raw_min_le_max [OF q0(2) assms(6)])
  show bv: "bounds_valid (clamp_bounds r)
         = (min_x r \<le> MAP_WIDTH \<and> 0 \<le> max_x r \<and> min_y r \<le> MAP_HEIGHT \<and> 0 \<le> max_y r)"
    using clamp_bounds_order_x [OF ox] clamp_bounds_order_y [OF oy] clamp_bounds_range [of r]
    unfolding bounds_valid_def by blast
  show mx: "(min_x r \<le> MAP_WIDTH) = (- of_int ((MAP_WIDTH + 1) * TILE_WIDTH) < offset_x s)"
    unfolding v using raw_min_in_grid [OF assms(5)] by (simp add: MAP_WIDTH_def TILE_WIDTH_def)
  show my: "(min_y r \<le> MAP_HEIGHT) = (- of_int ((MAP_HEIGHT + 1) * TILE_HEIGHT) < offset_y s)"
    unfolding v using raw_min_in_grid [OF assms(6)] by (simp add: MAP_HEIGHT_def TILE_HEIGHT_def)
  show hx: "0 \<le> max_x r" if "offset_x s \<le> f_div (int_to_float screen_w) (zoom s)"
    unfolding v using that by (intro raw_max_nonneg) (simp add: qx_def)
  show hy: "0 \<le> max_y r" if "offset_y s \<le> f_div (int_to_float screen_h) (zoom s)"
    unfolding v using that by (intro raw_max_nonneg) (simp add: qy_def)
  show "offset_x s < f_div (int_to_float screen_w) (zoom s) + of_int TILE_WIDTH" if "0 \<le> max_x r"
    using raw_max_nonneg_only [of qx "offset_x s"] that
    by (simp add: v qx_def TILE_WIDTH_def)
  show "offset_y s < f_div (int_to_float screen_h) (zoom s) + of_int TILE_HEIGHT" if "0 \<le> max_y r"
    using raw_max_nonneg_only [of qy "offset_y s"] that
    by (simp add: v qy_def TILE_HEIGHT_def)
  show "bounds_valid (clamp_bounds r)"
    if "- of_int ((MAP_WIDTH + 1) * TILE_WIDTH) < offset_x s
        \<and> offset_x s \<le> f_div (int_to_float screen_w) (zoom s)
        \<and> - of_int ((MAP_HEIGHT + 1) * TILE_HEIGHT) < offset_y s
        \<and> offset_y s \<le> f_div (int_to_float screen_h) (zoom s)"
  proof -
    have "0 \<le> max_x r" "0 \<le> max_y r"
      using that hx hy by simp_all
    with that mx my show ?thesis
      unfolding bv by simp
  qed
qed

theorem visible_bounds_validity_witness:
  "\<exists>r. raw_bounds \<lparr>offset_x = - 15216, offset_y = - 11216, zoom = 1, dragging = False,
               last_mouse_x = 0, last_mouse_y = 0, running = True\<rparr> 800 600 = Some r
       \<and> r = \<lparr>min_x = 475, min_y = 350, max_x = 501, max_y = 370\<rparr>
       \<and> visible_bounds \<lparr>offset_x = - 15216, offset_y = - 11216, zoom = 1, dragging = False,
               last_mouse_x = 0, last_mouse_y = 0, running = True\<rparr> 800 600
            = Some (clamp_bounds r)
       \<and> clamp_bounds r = r
       \<and> bounds_valid (clamp_bounds r)"
proof -
  let ?c = "\<lparr>offset_x = - 15216, offset_y = - 11216, zoom = 1 :: real, dragging = False,
               last_mouse_x = 0, last_mouse_y = 0, running = True\<rparr>"
  let ?r = "\<lparr>min_x = 475, min_y = 350, max_x = 501, max_y = 370\<rparr>"
  have c1: "\<lfloor>951 / 2 :: real\<rfloor> = 475" by linarith
  have c2: "\<lfloor>701 / 2 :: real\<rfloor> = 350" by linarith
  have c3: "\<lceil>1001 / 2 :: real\<rceil> = 501" by linarith
  have c4: "\<lceil>1477 / 4 :: real\<rceil> = 370" by linarith
  have e: "raw_bounds ?c 800 600 = Some ?r"
    by (simp add: raw_bounds_def f32_eval config_defs c1 c2 c3 c4)
  have h: "MIN_ZOOM \<le> zoom ?c" "zoom ?c \<le> MAX_ZOOM" "0 < (800 :: int)" "0 < (600 :: int)"
    "round_f32 (offset_x ?c) = offset_x ?c" "round_f32 (offset_y ?c) = offset_y ?c"
    by (simp_all add: MIN_ZOOM_value MAX_ZOOM_def f32_eval)
  have q: "f_div (int_to_float 800) 1 = 800" "f_div (int_to_float 600) 1 = 600"
    by (simp_all add: f32_eval)
  have p: "- of_int ((MAP_WIDTH + 1) * TILE_WIDTH) < offset_x ?c
        \<and> offset_x ?c \<le> f_div (int_to_float 800) (zoom ?c)
        \<and> - of_int ((MAP_HEIGHT + 1) * TILE_HEIGHT) < offset_y ?c
        \<and> offset_y ?c \<le> f_div (int_to_float 600) (zoom ?c)"
    by (simp add: q config_defs)
  have k: "clamp_bounds ?r = ?r"
    by (simp add: clamp_bounds_def config_defs)
  from visible_bounds_validity [OF h] e p
  have "visible_bounds ?c 800 600 = Some (clamp_bounds ?r) \<and> bounds_valid (clamp_bounds ?r)"
    by blast
  with e k show ?thesis by blast
qed

subsection \<open>The hovered tile\<close>

text \<open>
  C7. With the grid origin 16 pixels right of and below the pointer (offset 16, zoom 1,
  pointer at the window origin) the pointer is outside the grid: the floor-based
  transform gives tile \<open>(- 1, - 1)\<close> and nothing to highlight. maingl.c converts
  \<open>- 0.5\<close> with a cast, which gives 0; main.c divides \<open>- 16\<close> by 32 in \<open>int\<close> arithmetic,
  which gives 0 as well: both highlight tile \<open>(0, 0)\<close>.
\<close>

theorem hover_truncates_towards_zero:
  "hover_tile \<lparr>offset_x = 16, offset_y = 16, zoom = 1, dragging = False,
               last_mouse_x = 0, last_mouse_y = 0, running = True\<rparr> 0 0 = Some (Highlight 0 0)
   \<and> hover_tile_spec \<lparr>offset_x = 16, offset_y = 16, zoom = 1, dragging = False,
               last_mouse_x = 0, last_mouse_y = 0, running = True\<rparr> 0 0 = No_highlight
   \<and> hover_tile_sdl \<lparr>offset_x = 16, offset_y = 16, zoom = 1, dragging = False,
               last_mouse_x = 0, last_mouse_y = 0, running = True\<rparr> 0 0 = Some (Highlight 0 0)"
proof -
  have w: "world_coord 0 1 16 = - 16"
    by (simp add: world_coord_def f32_eval)
  have q: "f_div (- 16) (int_to_float 32) = - (1 / 2)"
    by (simp add: f32_eval)
  have "\<lceil>- (1 / 2) :: real\<rceil> = 0"
    by linarith
  then have c: "float_to_int (- (1 / 2)) = Some 0"
    by (simp add: f32_eval)
  have f: "\<lfloor>- (1 / 2) :: real\<rfloor> = - 1"
    by linarith
  have a: "hover_tile \<lparr>offset_x = 16, offset_y = 16, zoom = 1, dragging = False,
               last_mouse_x = 0, last_mouse_y = 0, running = True\<rparr> 0 0 = Some (Highlight 0 0)"
    by (simp add: hover_tile_def w q c config_defs)
  have b: "hover_tile_spec \<lparr>offset_x = 16, offset_y = 16, zoom = 1, dragging = False,
               last_mouse_x = 0, last_mouse_y = 0, running = True\<rparr> 0 0 = No_highlight"
    by (simp add: hover_tile_spec_def w q f config_defs)
  have d: "hover_tile_sdl \<lparr>offset_x = 16, offset_y = 16, zoom = 1, dragging = False,
               last_mouse_x = 0, last_mouse_y = 0, running = True\<rparr> 0 0 = Some (Highlight 0 0)"
    by (simp add: hover_tile_sdl_def c_div_def c_quot_def c_sub_def f32_eval config_defs)
  from a b d show ?thesis by simp
qed

subsection \<open>The reads of the draw loop\<close>

lemma align_start_value:
  "0 \<le> min_c \<Longrightarrow> 1 \<le> lod \<Longrightarrow> align_start min_c lod = Some (min_c div lod * lod)"
  by (simp add: align_start_def c_div_nonneg)

lemma align_start_nonneg: "0 \<le> min_c \<Longrightarrow> 1 \<le> lod \<Longrightarrow> 0 \<le> min_c div lod * lod" for min_c :: int
  by (simp add: pos_imp_zdiv_nonneg_iff)

lemma for_loop_empty: "limit \<le> i \<Longrightarrow> for_loop i limit step = Some []"
  by (subst for_loop.simps) simp

lemma for_loop_range:
  "0 < step \<Longrightarrow> \<exists>xs. for_loop i limit step = Some xs \<and> (\<forall>x\<in>set xs. i \<le> x \<and> x < limit)"
proof (induction i limit step rule: for_loop.induct)
  case (1 i limit step)
  show ?case
  proof (cases "i < limit")
    case False
    then show ?thesis by (subst for_loop.simps) simp
  next
    case True
    with 1 obtain xs where xs: "for_loop (i + step) limit step = Some xs"
      and r: "\<forall>x\<in>set xs. i + step \<le> x \<and> x < limit"
      by fastforce
    have "for_loop i limit step = Some (i # xs)"
      using True "1.prems" xs by (subst for_loop.simps) simp
    moreover have "\<forall>x\<in>set (i # xs). i \<le> x \<and> x < limit"
      using True r "1.prems" by auto
    ultimately show ?thesis by blast
  qed
qed

lemma nested_loops_range:
  assumes "0 < step"
  shows "\<exists>cells. nested_loops start_x start_y lim_x lim_y step = Some cells
           \<and> (\<forall>(x, y)\<in>set cells. start_x \<le> x \<and> x < lim_x \<and> start_y \<le> y \<and> y < lim_y)"
proof -
  obtain ys where ys: "for_loop start_y lim_y step = Some ys"
    and ry: "\<forall>y\<in>set ys. start_y \<le> y \<and> y < lim_y"
    using for_loop_range [OF assms] by blast
  obtain xs where xs: "for_loop start_x lim_x step = Some xs"
    and rx: "\<forall>x\<in>set xs. start_x \<le> x \<and> x < lim_x"
    using for_loop_range [OF assms] by blast
  show ?thesis
    using ys xs rx ry by (auto simp add: nested_loops_def)
qed

lemma nested_loops_empty:
  assumes "lim_x \<le> start_x \<or> lim_y \<le> start_y" and "0 < step"
  shows "nested_loops start_x start_y lim_x lim_y step = Some []"
proof (cases "lim_y \<le> start_y")
  case True
  then show ?thesis by (simp add: nested_loops_def for_loop_empty)
next
  case False
  with assms(1) have x: "for_loop start_x lim_x step = Some []"
    by (simp add: for_loop_empty)
  obtain ys where "for_loop start_y lim_y step = Some ys"
    using for_loop_range [OF assms(2)] by blast
  with x show ?thesis by (simp add: nested_loops_def)
qed

lemma cell_index_in_range:
  assumes "0 \<le> x" "x < MAP_WIDTH" "0 \<le> y" "y < MAP_HEIGHT"
  shows "0 \<le> y * MAP_WIDTH + x \<and> y * MAP_WIDTH + x < MAP_WIDTH * MAP_HEIGHT"
proof -
  have "y * MAP_WIDTH + x < (y + 1) * MAP_WIDTH"
    using assms(2) by (simp add: algebra_simps)
  also have "\<dots> \<le> MAP_HEIGHT * MAP_WIDTH"
    using assms(4) by (intro mult_right_mono) (simp_all add: MAP_WIDTH_def)
  finally show ?thesis
    using assms(1,3) by (simp add: MAP_WIDTH_def mult.commute)
qed

lemma frame_cells_in_bounds:
  assumes "MIN_ZOOM \<le> zoom s" and "visible_bounds s screen_w screen_h = Some b"
  shows "\<exists>lod start_x start_y cells.
           lod_stride (zoom s) = Some lod
           \<and> align_start (min_x b) lod = Some start_x \<and> align_start (min_y b) lod = Some start_y
           \<and> frame_cells s screen_w screen_h = Some cells
           \<and> (\<forall>(x, y)\<in>set cells. 0 \<le> x \<and> x < MAP_WIDTH \<and> 0 \<le> y \<and> y < MAP_HEIGHT
                 \<and> 0 \<le> y * MAP_WIDTH + x \<and> y * MAP_WIDTH + x < MAP_WIDTH * MAP_HEIGHT)
           \<and> (max_x b \<le> start_x \<or> max_y b \<le> start_y \<longrightarrow> cells = [])
           \<and> (lod = 1 \<longrightarrow> start_x = min_x b \<and> start_y = min_y b)"
proof -
  obtain lod where lod: "lod_stride (zoom s) = Some lod" and l1: "1 \<le> lod"
    using lod_stride_defined [OF assms(1)] by blast
  have cl: "0 \<le> min_x b" "max_x b \<le> MAP_WIDTH" "0 \<le> min_y b" "max_y b \<le> MAP_HEIGHT"
    using visible_bounds_clamps [OF assms(2)] by simp_all
  let ?sx = "min_x b div lod * lod" and ?sy = "min_y b div lod * lod"
  have sx: "align_start (min_x b) lod = Some ?sx" and sy: "align_start (min_y b) lod = Some ?sy"
    using cl(1,3) l1 by (simp_all add: align_start_value)
  have nx: "0 \<le> ?sx" and ny: "0 \<le> ?sy"
    using cl(1,3) l1 by (simp_all add: align_start_nonneg)
  have fc: "frame_cells s screen_w screen_h = nested_loops ?sx ?sy (max_x b) (max_y b) lod"
    by (simp add: frame_cells_def lod assms(2) sx sy)
  have pos: "0 < lod" using l1 by simp
  obtain cells where c: "nested_loops ?sx ?sy (max_x b) (max_y b) lod = Some cells"
    and r: "\<forall>(x, y)\<in>set cells. ?sx \<le> x \<and> x < max_x b \<and> ?sy \<le> y \<and> y < max_y b"
    using nested_loops_range [OF pos] by blast
  have inb: "\<forall>(x, y)\<in>set cells. 0 \<le> x \<and> x < MAP_WIDTH \<and> 0 \<le> y \<and> y < MAP_HEIGHT
                 \<and> 0 \<le> y * MAP_WIDTH + x \<and> y * MAP_WIDTH + x < MAP_WIDTH * MAP_HEIGHT"
  proof (clarify)
    fix x y assume "(x, y) \<in> set cells"
    with r have "?sx \<le> x" "x < max_x b" "?sy \<le> y" "y < max_y b" by auto
    with nx ny cl have "0 \<le> x" "x < MAP_WIDTH" "0 \<le> y" "y < MAP_HEIGHT" by linarith+
    then show "0 \<le> x \<and> x < MAP_WIDTH \<and> 0 \<le> y \<and> y < MAP_HEIGHT
                 \<and> 0 \<le> y * MAP_WIDTH + x \<and> y * MAP_WIDTH + x < MAP_WIDTH * MAP_HEIGHT"
      using cell_index_in_range by simp
  qed
  have emp: "max_x b \<le> ?sx \<or> max_y b \<le> ?sy \<longrightarrow> cells = []"
    using nested_loops_empty [OF _ pos, of "max_x b" ?sx "max_y b" ?sy] c by auto
  have one: "lod = 1 \<longrightarrow> ?sx = min_x b \<and> ?sy = min_y b"
    by simp
  show ?thesis
    using lod sx sy fc c inb emp one by (intro exI [of _ lod] exI [of _ ?sx] exI [of _ ?sy] exI [of _ cells]) simp
qed

lemma visible_bounds_sdl_clamps:
  assumes "visible_bounds_sdl s = Some b"
  shows "0 \<le> min_x b \<and> max_x b \<le> MAP_WIDTH \<and> 0 \<le> min_y b \<and> max_y b \<le> MAP_HEIGHT"
  using assms by (auto simp add: visible_bounds_sdl_def split: Option.bind_splits)

lemma frame_cells_sdl_in_bounds:
  assumes "visible_bounds_sdl s = Some b"
  shows "\<exists>cells. frame_cells_sdl s = Some cells
           \<and> (\<forall>(x, y)\<in>set cells. 0 \<le> x \<and> x < MAP_WIDTH \<and> 0 \<le> y \<and> y < MAP_HEIGHT)
           \<and> (max_x b \<le> min_x b \<or> max_y b \<le> min_y b \<longrightarrow> cells = [])"
proof -
  have cl: "0 \<le> min_x b" "max_x b \<le> MAP_WIDTH" "0 \<le> min_y b" "max_y b \<le> MAP_HEIGHT"
    using visible_bounds_sdl_clamps [OF assms] by simp_all
  have fc: "frame_cells_sdl s = nested_loops (min_x b) (min_y b) (max_x b) (max_y b) 1"
    by (simp add: frame_cells_sdl_def assms)
  have pos: "(0::int) < 1" by simp
  obtain cells where c: "nested_loops (min_x b) (min_y b) (max_x b) (max_y b) 1 = Some cells"
    and r: "\<forall>(x, y)\<in>set cells. min_x b \<le> x \<and> x < max_x b \<and> min_y b \<le> y \<and> y < max_y b"
    using nested_loops_range [OF pos] by blast
  have inb: "\<forall>(x, y)\<in>set cells. 0 \<le> x \<and> x < MAP_WIDTH \<and> 0 \<le> y \<and> y < MAP_HEIGHT"
    using r cl by fastforce
  have emp: "max_x b \<le> min_x b \<or> max_y b \<le> min_y b \<longrightarrow> cells = []"
    using nested_loops_empty [OF _ pos, of "max_x b" "min_x b" "max_y b" "min_y b"] c by auto
  show ?thesis
    using fc c inb emp by auto
qed

lemma those_map_defined:
  "(\<forall>x\<in>set xs. f x \<noteq> None) \<Longrightarrow> \<exists>ys. those (map f xs) = Some ys \<and> length ys = length xs"
  by (induction xs) auto

lemma tile_at_defined:
  assumes "length tiles = nat (MAP_WIDTH * MAP_HEIGHT)"
    and "0 \<le> y * MAP_WIDTH + x" and "y * MAP_WIDTH + x < MAP_WIDTH * MAP_HEIGHT"
  shows "tile_at tiles x y \<noteq> None"
  using assms by (simp add: tile_at_def Let_def)

lemma tile_at_sdl_defined:
  assumes "length tiles = nat MAP_HEIGHT" and "\<forall>r\<in>set tiles. length r = nat MAP_WIDTH"
    and "0 \<le> x" and "x < MAP_WIDTH" and "0 \<le> y" and "y < MAP_HEIGHT"
  shows "tile_at_sdl tiles x y \<noteq> None"
proof -
  have y: "nat y < length tiles" using assms(1,5,6) by simp
  then have "tiles ! nat y \<in> set tiles" by simp
  with assms(2) have "length (tiles ! nat y) = nat MAP_WIDTH" by blast
  with assms(3,4) have "nat x < length (tiles ! nat y)" by simp
  with y assms(3,5) show ?thesis by (simp add: tile_at_sdl_def)
qed

lemma frame_tiles_defined:
  assumes "length tiles = nat (MAP_WIDTH * MAP_HEIGHT)"
    and "frame_cells s screen_w screen_h = Some cells"
    and "\<forall>(x, y)\<in>set cells. 0 \<le> y * MAP_WIDTH + x \<and> y * MAP_WIDTH + x < MAP_WIDTH * MAP_HEIGHT"
  shows "\<exists>idx. frame_tiles tiles s screen_w screen_h = Some idx \<and> length idx = length cells"
proof -
  have "\<forall>c\<in>set cells. (\<lambda>(x, y). tile_at tiles x y) c \<noteq> None"
    using assms(3) tile_at_defined [OF assms(1)] by fastforce
  from those_map_defined [OF this] show ?thesis
    by (simp add: frame_tiles_def assms(2))
qed

lemma frame_tiles_sdl_defined:
  assumes "length tiles = nat MAP_HEIGHT" and "\<forall>r\<in>set tiles. length r = nat MAP_WIDTH"
    and "frame_cells_sdl s = Some cells"
    and "\<forall>(x, y)\<in>set cells. 0 \<le> x \<and> x < MAP_WIDTH \<and> 0 \<le> y \<and> y < MAP_HEIGHT"
  shows "\<exists>idx. frame_tiles_sdl tiles s = Some idx \<and> length idx = length cells"
proof -
  have "\<forall>c\<in>set cells. (\<lambda>(x, y). tile_at_sdl tiles x y) c \<noteq> None"
    using assms(4) tile_at_sdl_defined [OF assms(1,2)] by fastforce
  from those_map_defined [OF this] show ?thesis
    by (simp add: frame_tiles_sdl_def assms(3))
qed

lemma degenerate_bounds:
  "visible_bounds \<lparr>offset_x = - 32048, offset_y = - 31744, zoom = 1 / 64, dragging = False,
               last_mouse_x = 0, last_mouse_y = 0, running = True\<rparr> 800 600
     = Some \<lparr>min_x = 1001, min_y = 992, max_x = 1000, max_y = 1000\<rparr>"
proof -
  have f: "\<lfloor>2003 / 2 :: real\<rfloor> = 1001" by linarith
  have c: "\<lceil>5203 / 2 :: real\<rceil> = 2602" by linarith
  show ?thesis
    by (simp add: visible_bounds_def raw_bounds_def clamp_bounds_def f32_eval config_defs f c)
qed

lemma degenerate_sdl_bounds:
  "visible_bounds_sdl \<lparr>offset_x = - 100000, offset_y = 0, zoom = 1, dragging = False,
               last_mouse_x = 0, last_mouse_y = 0, running = True\<rparr>
     = Some \<lparr>min_x = 3125, min_y = 0, max_x = 1000, max_y = 19\<rparr>"
proof -
  have f: "\<lfloor>75 / 4 :: real\<rfloor> = 18" by linarith
  show ?thesis
    by (simp add: visible_bounds_sdl_def f32_eval config_defs f)
qed

lemma lod_stride_64th: "lod_stride (1 / 64) = Some 16"
  by (simp add: lod_stride_def tile_screen_size_def f32_eval config_defs)

text \<open>
  C10, as stated, fails in its remark on the degenerate case. At zoom \<open>1 / 64\<close> the
  stride is 16; with \<open>offset_x = - 32048\<close> the clamped minimum \<open>min_x = 1001\<close> exceeds
  the clamped maximum \<open>max_x = 1000\<close>, but the aligned start is 992 and the loop of
  maingl.c reads cell \<open>(992, 992)\<close>.
\<close>

theorem degenerate_range_is_read:
  "MIN_ZOOM \<le> 1 / 64 \<and> 1 / 64 \<le> MAX_ZOOM
   \<and> visible_bounds \<lparr>offset_x = - 32048, offset_y = - 31744, zoom = 1 / 64, dragging = False,
               last_mouse_x = 0, last_mouse_y = 0, running = True\<rparr> 800 600
     = Some \<lparr>min_x = 1001, min_y = 992, max_x = 1000, max_y = 1000\<rparr>
   \<and> frame_cells \<lparr>offset_x = - 32048, offset_y = - 31744, zoom = 1 / 64, dragging = False,
               last_mouse_x = 0, last_mouse_y = 0, running = True\<rparr> 800 600
     = Some [(992, 992)]"
proof -
  have l: "for_loop 992 1000 16 = Some [992]"
    by (simp add: for_loop.simps [of 992] for_loop_empty)
  have n: "nested_loops 992 992 1000 1000 16 = Some [(992, 992)]"
    by (simp add: nested_loops_def l)
  have a: "align_start 1001 16 = Some 992" "align_start 992 16 = Some 992"
    by (simp_all add: align_start_value)
  show ?thesis
    by (simp add: degenerate_bounds frame_cells_def lod_stride_64th a n MIN_ZOOM_value MAX_ZOOM_def)
qed

text \<open>
  C10, amended. Whenever the casts of the bounds are defined, every cell read by the
  draw loop lies on the grid, \<open>0 \<le> x < MAP_WIDTH\<close> and \<open>0 \<le> y < MAP_HEIGHT\<close>, the
  index \<open>y * MAP_WIDTH + x\<close> lies in the allocated block, and every read of the frame
  succeeds: in maingl.c for every zoom between \<open>MIN_ZOOM\<close> and \<open>MAX_ZOOM\<close> (the stride
  is then defined and the loops terminate), in main.c for every positive zoom. The loop
  of maingl.c reads nothing when the aligned start is not below the clamped maximum on
  some axis (at stride 1 the aligned start is the clamped minimum); the loop of main.c
  reads nothing when the clamped minimum is not below the clamped maximum.
\<close>

theorem draw_loop_reads_in_bounds:
  assumes "MIN_ZOOM \<le> zoom s" and "zoom s \<le> MAX_ZOOM"
    and "visible_bounds s screen_w screen_h = Some b"
    and "length tiles = nat (MAP_WIDTH * MAP_HEIGHT)"
    and "0 < zoom t"
    and "visible_bounds_sdl t = Some b'"
    and "length rows_sdl = nat MAP_HEIGHT" and "\<forall>r\<in>set rows_sdl. length r = nat MAP_WIDTH"
  shows "(\<exists>lod start_x start_y cells idx.
            lod_stride (zoom s) = Some lod
            \<and> align_start (min_x b) lod = Some start_x \<and> align_start (min_y b) lod = Some start_y
            \<and> frame_cells s screen_w screen_h = Some cells
            \<and> (\<forall>(x, y)\<in>set cells. 0 \<le> x \<and> x < MAP_WIDTH \<and> 0 \<le> y \<and> y < MAP_HEIGHT
                  \<and> 0 \<le> y * MAP_WIDTH + x \<and> y * MAP_WIDTH + x < MAP_WIDTH * MAP_HEIGHT)
            \<and> frame_tiles tiles s screen_w screen_h = Some idx \<and> length idx = length cells
            \<and> (max_x b \<le> start_x \<or> max_y b \<le> start_y \<longrightarrow> cells = [])
            \<and> (lod = 1 \<longrightarrow> start_x = min_x b \<and> start_y = min_y b))
         \<and> (\<exists>cells idx. frame_cells_sdl t = Some cells
               \<and> (\<forall>(x, y)\<in>set cells. 0 \<le> x \<and> x < MAP_WIDTH \<and> 0 \<le> y \<and> y < MAP_HEIGHT)
               \<and> frame_tiles_sdl rows_sdl t = Some idx \<and> length idx = length cells
               \<and> (max_x b' \<le> min_x b' \<or> max_y b' \<le> min_y b' \<longrightarrow> cells = []))"
proof (rule conjI)
  obtain lod start_x start_y cells where a: "lod_stride (zoom s) = Some lod"
    "align_start (min_x b) lod = Some start_x" "align_start (min_y b) lod = Some start_y"
    "frame_cells s screen_w screen_h = Some cells"
    and inb: "\<forall>(x, y)\<in>set cells. 0 \<le> x \<and> x < MAP_WIDTH \<and> 0 \<le> y \<and> y < MAP_HEIGHT
                  \<and> 0 \<le> y * MAP_WIDTH + x \<and> y * MAP_WIDTH + x < MAP_WIDTH * MAP_HEIGHT"
    and e: "max_x b \<le> start_x \<or> max_y b \<le> start_y \<longrightarrow> cells = []"
      "lod = 1 \<longrightarrow> start_x = min_x b \<and> start_y = min_y b"
    using frame_cells_in_bounds [OF assms(1,3)] by blast
  have "\<forall>(x, y)\<in>set cells. 0 \<le> y * MAP_WIDTH + x \<and> y * MAP_WIDTH + x < MAP_WIDTH * MAP_HEIGHT"
    using inb by fastforce
  from frame_tiles_defined [OF assms(4) a(4) this]
  obtain idx where i: "frame_tiles tiles s screen_w screen_h = Some idx" "length idx = length cells"
    by blast
  show "\<exists>lod start_x start_y cells idx.
            lod_stride (zoom s) = Some lod
            \<and> align_start (min_x b) lod = Some start_x \<and> align_start (min_y b) lod = Some start_y
            \<and> frame_cells s screen_w screen_h = Some cells
            \<and> (\<forall>(x, y)\<in>set cells. 0 \<le> x \<and> x < MAP_WIDTH \<and> 0 \<le> y \<and> y < MAP_HEIGHT
                  \<and> 0 \<le> y * MAP_WIDTH + x \<and> y * MAP_WIDTH + x < MAP_WIDTH * MAP_HEIGHT)
            \<and> frame_tiles tiles s screen_w screen_h = Some idx \<and> length idx = length cells
            \<and> (max_x b \<le> start_x \<or> max_y b \<le> start_y \<longrightarrow> cells = [])
            \<and> (lod = 1 \<longrightarrow> start_x = min_x b \<and> start_y = min_y b)"
    using a inb i e by blast
next
  obtain cells where a: "frame_cells_sdl t = Some cells"
    and inb: "\<forall>(x, y)\<in>set cells. 0 \<le> x \<and> x < MAP_WIDTH \<and> 0 \<le> y \<and> y < MAP_HEIGHT"
    and e: "max_x b' \<le> min_x b' \<or> max_y b' \<le> min_y b' \<longrightarrow> cells = []"
    using frame_cells_sdl_in_bounds [OF assms(6)] by blast
  from frame_tiles_sdl_defined [OF assms(7,8) a inb]
  obtain idx where i: "frame_tiles_sdl rows_sdl t = Some idx" "length idx = length cells"
    by blast
  show "\<exists>cells idx. frame_cells_sdl t = Some cells
               \<and> (\<forall>(x, y)\<in>set cells. 0 \<le> x \<and> x < MAP_WIDTH \<and> 0 \<le> y \<and> y < MAP_HEIGHT)
               \<and> frame_tiles_sdl rows_sdl t = Some idx \<and> length idx = length cells
               \<and> (max_x b' \<le> min_x b' \<or> max_y b' \<le> min_y b' \<longrightarrow> cells = [])"
    using a inb i e by blast
qed

theorem draw_loop_reads_in_bounds_witness:
  "(\<exists>lod start_x start_y cells idx.
      lod_stride (1 / 64) = Some lod
      \<and> align_start 1001 lod = Some start_x \<and> align_start 992 lod = Some start_y
      \<and> frame_cells \<lparr>offset_x = - 32048, offset_y = - 31744, zoom = 1 / 64, dragging = False,
               last_mouse_x = 0, last_mouse_y = 0, running = True\<rparr> 800 600 = Some cells
      \<and> (\<forall>(x, y)\<in>set cells. 0 \<le> x \<and> x < MAP_WIDTH \<and> 0 \<le> y \<and> y < MAP_HEIGHT
            \<and> 0 \<le> y * MAP_WIDTH + x \<and> y * MAP_WIDTH + x < MAP_WIDTH * MAP_HEIGHT)
      \<and> frame_tiles (replicate 1000000 7) \<lparr>offset_x = - 32048, offset_y = - 31744,
               zoom = 1 / 64, dragging = False, last_mouse_x = 0, last_mouse_y = 0,
               running = True\<rparr> 800 600 = Some idx
      \<and> length idx = length cells
      \<and> (1000 \<le> start_x \<or> 1000 \<le> start_y \<longrightarrow> cells = [])
      \<and> (lod = 1 \<longrightarrow> start_x = 1001 \<and> start_y = 992))
   \<and> (\<exists>cells idx. frame_cells_sdl \<lparr>offset_x = - 100000, offset_y = 0, zoom = 1,
               dragging = False, last_mouse_x = 0, last_mouse_y = 0, running = True\<rparr> = Some cells
         \<and> (\<forall>(x, y)\<in>set cells. 0 \<le> x \<and> x < MAP_WIDTH \<and> 0 \<le> y \<and> y < MAP_HEIGHT)
         \<and> frame_tiles_sdl (replicate 1000 (replicate 1000 7)) \<lparr>offset_x = - 100000,
               offset_y = 0, zoom = 1, dragging = False, last_mouse_x = 0, last_mouse_y = 0,
               running = True\<rparr> = Some idx
         \<and> length idx = length cells
         \<and> cells = [])"
proof -
  have h1: "MIN_ZOOM \<le> zoom \<lparr>offset_x = - 32048, offset_y = - 31744, zoom = 1 / 64,
      dragging = False, last_mouse_x = 0, last_mouse_y = 0, running = True\<rparr>"
    by (simp add: MIN_ZOOM_value)
  have h2: "zoom \<lparr>offset_x = - 32048, offset_y = - 31744, zoom = 1 / 64 :: real,
      dragging = False, last_mouse_x = 0, last_mouse_y = 0, running = True\<rparr> \<le> MAX_ZOOM"
    by (simp add: MAX_ZOOM_def)
  have h4: "length (replicate 1000000 (7::int)) = nat (MAP_WIDTH * MAP_HEIGHT)"
    by (simp add: MAP_WIDTH_def MAP_HEIGHT_def)
  have h5: "0 < zoom \<lparr>offset_x = - 100000, offset_y = 0, zoom = 1 :: int,
      dragging = False, last_mouse_x = 0, last_mouse_y = 0, running = True\<rparr>"
    by simp
  have h7: "length (replicate 1000 (replicate 1000 (7::int))) = nat MAP_HEIGHT"
    by (simp add: MAP_HEIGHT_def)
  have h8: "\<forall>r\<in>set (replicate 1000 (replicate 1000 (7::int))). length r = nat MAP_WIDTH"
    by (simp add: MAP_WIDTH_def)
  from draw_loop_reads_in_bounds [OF h1 h2 degenerate_bounds h4 h5 degenerate_sdl_bounds h7 h8]
  show ?thesis by simp
qed

subsection \<open>Dragging\<close>

lemma initial_camera_value:
  "initial_camera = \<lparr>offset_x = - 15600, offset_y = - 15700, zoom = 1, dragging = False,
                      last_mouse_x = 0, last_mouse_y = 0, running = True\<rparr>"
  by (simp add: initial_camera_def f32_eval config_defs)

lemma initial_camera_sdl_value:
  "initial_camera_sdl = \<lparr>offset_x = - 15600, offset_y = - 15700, zoom = 1, dragging = False,
                      last_mouse_x = 0, last_mouse_y = 0, running = True\<rparr>"
  by (simp add: initial_camera_sdl_def f32_eval config_defs)

text \<open>
  The motion branch rounds three times: the pointer difference when it is converted,
  the quotient and the sum. In exact arithmetic the new offset differs from
  \<open>offset + (x - last) / zoom\<close> by these roundings only.
\<close>

lemma drag_offset_error:
  "\<bar>f_add off (f_div (int_to_float d) z) - (off + of_int d / z)\<bar>
     \<le> (\<bar>off + of_int d / z\<bar> + 3 * \<bar>of_int d / z\<bar>) / 2 ^ 24 + 1 / 2 ^ 148"
proof -
  define D where "D = real_of_int d / z"
  define p where "p = int_to_float d / z"
  define q where "q = f_div (int_to_float d) z"
  define a where "a = \<bar>D\<bar>"
  define b where "b = \<bar>off + D\<bar>"
  have "\<bar>int_to_float d - of_int d\<bar> \<le> \<bar>real_of_int d\<bar> / 2 ^ 24"
    by (rule int_to_float_error)
  then have "\<bar>int_to_float d - of_int d\<bar> / \<bar>z\<bar> \<le> \<bar>real_of_int d\<bar> / 2 ^ 24 / \<bar>z\<bar>"
    by (intro divide_right_mono) simp_all
  moreover have "\<bar>int_to_float d - of_int d\<bar> / \<bar>z\<bar> = \<bar>p - D\<bar>"
    by (simp add: p_def D_def diff_divide_distrib [symmetric] abs_divide)
  moreover have "\<bar>real_of_int d\<bar> / 2 ^ 24 / \<bar>z\<bar> = a / 2 ^ 24"
    by (simp add: a_def D_def abs_divide)
  ultimately have e0: "\<bar>p - D\<bar> \<le> a / 2 ^ 24" by simp
  have e1: "\<bar>q - p\<bar> \<le> \<bar>p\<bar> / 2 ^ 24 + 1 / 2 ^ 150"
    unfolding q_def p_def f_div_def by (rule round_f32_error)
  have e2: "\<bar>f_add off q - (off + q)\<bar> \<le> \<bar>off + q\<bar> / 2 ^ 24 + 1 / 2 ^ 150"
    unfolding f_add_def by (rule round_f32_error)
  have pa: "\<bar>p\<bar> \<le> a + a / 2 ^ 24"
    using e0 unfolding a_def by linarith
  have "\<bar>p\<bar> / 2 ^ 24 \<le> (a + a / 2 ^ 24) / 2 ^ 24"
    using pa by (intro divide_right_mono) simp_all
  with e1 have e1': "\<bar>q - p\<bar> \<le> (a + a / 2 ^ 24) / 2 ^ 24 + 1 / 2 ^ 150" by linarith
  define E where "E = a / 2 ^ 24 + (a + a / 2 ^ 24) / 2 ^ 24 + 1 / 2 ^ 150"
  have qD: "\<bar>q - D\<bar> \<le> E"
    unfolding E_def using e0 e1' by linarith
  have "\<bar>off + q\<bar> \<le> b + E"
    unfolding b_def using qD by linarith
  then have "\<bar>off + q\<bar> / 2 ^ 24 \<le> (b + E) / 2 ^ 24"
    by (intro divide_right_mono) simp_all
  with e2 have e2': "\<bar>f_add off q - (off + q)\<bar> \<le> (b + E) / 2 ^ 24 + 1 / 2 ^ 150" by linarith
  have t: "\<bar>f_add off q - (off + D)\<bar> \<le> (b + E) / 2 ^ 24 + 1 / 2 ^ 150 + E"
    using e2' qD by linarith
  have a0: "0 \<le> a" by (simp add: a_def)
  have "(b + E) / 2 ^ 24 + 1 / 2 ^ 150 + E \<le> (b + 3 * a) / 2 ^ 24 + 1 / 2 ^ 148"
    unfolding E_def using a0 by (simp add: field_simps)
  with t show ?thesis
    by (simp add: q_def D_def a_def b_def)
qed

lemma wheel_zoom_in_from_one: "wheel_zoom 1 1 = 9227469 / 8388608"
proof -
  have "round_f32 (9227469 / 8388608) = 9227469 / 8388608"
    by (rule round_f32_representable [of _ 9227469 "- 23"]) (simp_all add: power_int_minus)
  then show ?thesis
    by (simp add: wheel_zoom_def ZOOM_STEP_value f_mul_def MIN_ZOOM_value MAX_ZOOM_def)
qed

lemma drag_one_pixel_quotient: "f_div 1 (9227469 / 8388608) = 7626007 / 8388608"
  using inverse_step_value by (simp only: ZOOM_STEP_value)

lemma drag_one_pixel_sum: "f_add (- 15600) (7626007 / 8388608) = - (15973469 / 1024)"
  unfolding f_add_def
  by (rule trans [OF round_f32_eqI [where e = "13" and u = "1 / 2 ^ 10" and m = "- 15973469"]])
     (simp_all add: rne_def power_int_minus)

lemma wheel_then_press:
  "handle_events initial_camera [MouseWheel 1 0 0, MouseButtonDown Button_left 100 50]
     = \<lparr>offset_x = - 15600, offset_y = - 15700, zoom = 9227469 / 8388608, dragging = True,
        last_mouse_x = 100, last_mouse_y = 50, running = True\<rparr>"
proof -
  have w: "world_coord 0 1 (- 15600) = 15600" "world_coord 0 1 (- 15700) = 15700"
    by (simp_all add: world_coord_def f32_eval)
  have q: "f_div (int_to_float 0) (9227469 / 8388608) = 0"
    by (simp add: f_div_def int_to_float_def round_f32_0)
  have o: "f_sub 0 15600 = - 15600" "f_sub 0 15700 = - 15700"
    by (simp_all add: f32_eval)
  show ?thesis
    by (simp add: handle_events_def initial_camera_value Let_def wheel_zoom_in_from_one w q o)
qed

text \<open>
  C8, as stated, fails in \<open>float\<close> arithmetic. From the initial camera, one wheel step
  up with the pointer at the origin leaves the offset at \<open>- 15600\<close> and sets the zoom to
  \<open>1.1f = 9227469 / 8388608\<close>. A press at \<open>(100, 50)\<close> and a motion to \<open>(101, 50)\<close> then
  move \<open>offset_x\<close> to \<open>- 15973469 / 1024\<close>: a change of \<open>931 / 1024\<close>, which is neither
  \<open>1 / zoom = 8388608 / 9227469\<close> nor the \<open>float\<close> quotient \<open>7626007 / 8388608\<close>.
\<close>

theorem drag_pan_not_exact:
  "dragging (handle_events initial_camera
       [MouseWheel 1 0 0, MouseButtonDown Button_left 100 50])
   \<and> MIN_ZOOM \<le> zoom (handle_events initial_camera
       [MouseWheel 1 0 0, MouseButtonDown Button_left 100 50])
   \<and> zoom (handle_events initial_camera
       [MouseWheel 1 0 0, MouseButtonDown Button_left 100 50]) \<le> MAX_ZOOM
   \<and> zoom (handle_events initial_camera
       [MouseWheel 1 0 0, MouseButtonDown Button_left 100 50]) = 9227469 / 8388608
   \<and> last_mouse_x (handle_events initial_camera
       [MouseWheel 1 0 0, MouseButtonDown Button_left 100 50]) = 100
   \<and> offset_x (handle_events initial_camera
       [MouseWheel 1 0 0, MouseButtonDown Button_left 100 50]) = - 15600
   \<and> offset_x (handle_event (handle_events initial_camera
       [MouseWheel 1 0 0, MouseButtonDown Button_left 100 50]) (MouseMotion 101 50))
      = - (15973469 / 1024)
   \<and> - (15973469 / 1024) - (- 15600) = (931 / 1024 :: real)
   \<and> of_int (101 - 100) / (9227469 / 8388608) = (8388608 / 9227469 :: real)
   \<and> (931 / 1024 :: real) \<noteq> 8388608 / 9227469
   \<and> f_div (int_to_float (101 - 100)) (9227469 / 8388608) = 7626007 / 8388608
   \<and> (931 / 1024 :: real) \<noteq> 7626007 / 8388608"
proof -
  have i: "int_to_float 1 = 1" by (simp add: f32_eval)
  have m: "offset_x (handle_event (handle_events initial_camera
       [MouseWheel 1 0 0, MouseButtonDown Button_left 100 50]) (MouseMotion 101 50))
      = - (15973469 / 1024)"
    by (simp add: wheel_then_press i drag_one_pixel_quotient drag_one_pixel_sum)
  have s: "dragging (handle_events initial_camera
       [MouseWheel 1 0 0, MouseButtonDown Button_left 100 50])"
    "MIN_ZOOM \<le> zoom (handle_events initial_camera
       [MouseWheel 1 0 0, MouseButtonDown Button_left 100 50])"
    "zoom (handle_events initial_camera
       [MouseWheel 1 0 0, MouseButtonDown Button_left 100 50]) \<le> MAX_ZOOM"
    "zoom (handle_events initial_camera
       [MouseWheel 1 0 0, MouseButtonDown Button_left 100 50]) = 9227469 / 8388608"
    "last_mouse_x (handle_events initial_camera
       [MouseWheel 1 0 0, MouseButtonDown Button_left 100 50]) = 100"
    "offset_x (handle_events initial_camera
       [MouseWheel 1 0 0, MouseButtonDown Button_left 100 50]) = - 15600"
    by (simp_all add: wheel_then_press MIN_ZOOM_value MAX_ZOOM_def)
  have a: "- (15973469 / 1024) - (- 15600) = (931 / 1024 :: real)"
    "of_int (101 - 100) / (9227469 / 8388608) = (8388608 / 9227469 :: real)"
    "(931 / 1024 :: real) \<noteq> 8388608 / 9227469"
    by simp_all
  have b: "f_div (int_to_float (101 - 100)) (9227469 / 8388608) = 7626007 / 8388608"
    "(931 / 1024 :: real) \<noteq> 7626007 / 8388608"
    by (simp_all add: i drag_one_pixel_quotient)
  show ?thesis
    by (intro conjI s m a b)
qed

text \<open>
  C8, amended. While dragging, at a zoom in its range (\<open>MIN_ZOOM\<close> to \<open>MAX_ZOOM\<close> in
  maingl.c, 1 to 4 in main.c), a motion event to \<open>(x, y)\<close> replaces each offset by the
  \<open>float\<close> sum of the offset and the \<open>float\<close> quotient \<open>(x - last) / zoom\<close> (the zoom
  converted to \<open>float\<close> in main.c), stores \<open>(x, y)\<close> as the last pointer position and
  leaves the zoom and the dragging flag alone. The new offset is not clamped or
  otherwise bounded: it is that sum whatever its size. It differs from the exact
  \<open>offset + (x - last) / zoom\<close> by at most
  \<open>(\<bar>offset + (x - last) / zoom\<bar> + 3 * \<bar>(x - last) / zoom\<bar>) / 2 ^ 24 + 2 ^ - 148\<close>.
\<close>

theorem drag_pan_within_rounding:
  assumes "dragging s" and "MIN_ZOOM \<le> zoom s" and "zoom s \<le> MAX_ZOOM"
    and "dragging t" and "1 \<le> zoom t" and "zoom t \<le> 4"
  shows "offset_x (handle_event s (MouseMotion x y))
           = f_add (offset_x s) (f_div (int_to_float (x - last_mouse_x s)) (zoom s))
         \<and> offset_y (handle_event s (MouseMotion x y))
           = f_add (offset_y s) (f_div (int_to_float (y - last_mouse_y s)) (zoom s))
         \<and> last_mouse_x (handle_event s (MouseMotion x y)) = x
         \<and> last_mouse_y (handle_event s (MouseMotion x y)) = y
         \<and> zoom (handle_event s (MouseMotion x y)) = zoom s
         \<and> dragging (handle_event s (MouseMotion x y))
         \<and> offset_x (handle_event_sdl t (MouseMotion x y))
           = f_add (offset_x t) (f_div (int_to_float (x - last_mouse_x t)) (int_to_float (zoom t)))
         \<and> offset_y (handle_event_sdl t (MouseMotion x y))
           = f_add (offset_y t) (f_div (int_to_float (y - last_mouse_y t)) (int_to_float (zoom t)))
         \<and> last_mouse_x (handle_event_sdl t (MouseMotion x y)) = x
         \<and> last_mouse_y (handle_event_sdl t (MouseMotion x y)) = y
         \<and> zoom (handle_event_sdl t (MouseMotion x y)) = zoom t
         \<and> dragging (handle_event_sdl t (MouseMotion x y))
         \<and> \<bar>offset_x (handle_event s (MouseMotion x y))
              - (offset_x s + of_int (x - last_mouse_x s) / zoom s)\<bar>
             \<le> (\<bar>offset_x s + of_int (x - last_mouse_x s) / zoom s\<bar>
                  + 3 * \<bar>of_int (x - last_mouse_x s) / zoom s\<bar>) / 2 ^ 24 + 1 / 2 ^ 148
         \<and> \<bar>offset_y (handle_event s (MouseMotion x y))
              - (offset_y s + of_int (y - last_mouse_y s) / zoom s)\<bar>
             \<le> (\<bar>offset_y s + of_int (y - last_mouse_y s) / zoom s\<bar>
                  + 3 * \<bar>of_int (y - last_mouse_y s) / zoom s\<bar>) / 2 ^ 24 + 1 / 2 ^ 148
         \<and> \<bar>offset_x (handle_event_sdl t (MouseMotion x y))
              - (offset_x t + of_int (x - last_mouse_x t) / of_int (zoom t))\<bar>
             \<le> (\<bar>offset_x t + of_int (x - last_mouse_x t) / of_int (zoom t)\<bar>
                  + 3 * \<bar>of_int (x - last_mouse_x t) / of_int (zoom t)\<bar>) / 2 ^ 24 + 1 / 2 ^ 148
         \<and> \<bar>offset_y (handle_event_sdl t (MouseMotion x y))
              - (offset_y t + of_int (y - last_mouse_y t) / of_int (zoom t))\<bar>
             \<le> (\<bar>offset_y t + of_int (y - last_mouse_y t) / of_int (zoom t)\<bar>
                  + 3 * \<bar>of_int (y - last_mouse_y t) / of_int (zoom t)\<bar>) / 2 ^ 24 + 1 / 2 ^ 148"
proof -
  have zt: "int_to_float (zoom t) = of_int (zoom t)"
    using assms(5,6) by (intro int_to_float_exact) simp
  have sx: "offset_x (handle_event s (MouseMotion x y))
           = f_add (offset_x s) (f_div (int_to_float (x - last_mouse_x s)) (zoom s))"
    and sy: "offset_y (handle_event s (MouseMotion x y))
           = f_add (offset_y s) (f_div (int_to_float (y - last_mouse_y s)) (zoom s))"
    and tx: "offset_x (handle_event_sdl t (MouseMotion x y))
           = f_add (offset_x t) (f_div (int_to_float (x - last_mouse_x t)) (int_to_float (zoom t)))"
    and ty: "offset_y (handle_event_sdl t (MouseMotion x y))
           = f_add (offset_y t) (f_div (int_to_float (y - last_mouse_y t)) (int_to_float (zoom t)))"
    using assms(1,4) by simp_all
  have r: "last_mouse_x (handle_event s (MouseMotion x y)) = x"
    "last_mouse_y (handle_event s (MouseMotion x y)) = y"
    "zoom (handle_event s (MouseMotion x y)) = zoom s"
    "dragging (handle_event s (MouseMotion x y))"
    "last_mouse_x (handle_event_sdl t (MouseMotion x y)) = x"
    "last_mouse_y (handle_event_sdl t (MouseMotion x y)) = y"
    "zoom (handle_event_sdl t (MouseMotion x y)) = zoom t"
    "dragging (handle_event_sdl t (MouseMotion x y))"
    using assms(1,4) by simp_all
  have ax: "\<bar>offset_x (handle_event s (MouseMotion x y))
              - (offset_x s + of_int (x - last_mouse_x s) / zoom s)\<bar>
             \<le> (\<bar>offset_x s + of_int (x - last_mouse_x s) / zoom s\<bar>
                  + 3 * \<bar>of_int (x - last_mouse_x s) / zoom s\<bar>) / 2 ^ 24 + 1 / 2 ^ 148"
    unfolding sx by (rule drag_offset_error)
  have ay: "\<bar>offset_y (handle_event s (MouseMotion x y))
              - (offset_y s + of_int (y - last_mouse_y s) / zoom s)\<bar>
             \<le> (\<bar>offset_y s + of_int (y - last_mouse_y s) / zoom s\<bar>
                  + 3 * \<bar>of_int (y - last_mouse_y s) / zoom s\<bar>) / 2 ^ 24 + 1 / 2 ^ 148"
    unfolding sy by (rule drag_offset_error)
  have bx: "\<bar>offset_x (handle_event_sdl t (MouseMotion x y))
              - (offset_x t + of_int (x - last_mouse_x t) / of_int (zoom t))\<bar>
             \<le> (\<bar>offset_x t + of_int (x - last_mouse_x t) / of_int (zoom t)\<bar>
                  + 3 * \<bar>of_int (x - last_mouse_x t) / of_int (zoom t)\<bar>) / 2 ^ 24 + 1 / 2 ^ 148"
    unfolding tx zt by (rule drag_offset_error)
  have by': "\<bar>offset_y (handle_event_sdl t (MouseMotion x y))
              - (offset_y t + of_int (y - last_mouse_y t) / of_int (zoom t))\<bar>
             \<le> (\<bar>offset_y t + of_int (y - last_mouse_y t) / of_int (zoom t)\<bar>
                  + 3 * \<bar>of_int (y - last_mouse_y t) / of_int (zoom t)\<bar>) / 2 ^ 24 + 1 / 2 ^ 148"
    unfolding ty zt by (rule drag_offset_error)
  show ?thesis
    by (intro conjI sx sy tx ty r ax ay bx by')
qed

theorem drag_pan_within_rounding_witness:
  "dragging (handle_event initial_camera (MouseButtonDown Button_left 100 50))
   \<and> dragging (handle_event_sdl initial_camera_sdl (MouseButtonDown Button_left 100 50))
   \<and> offset_x (handle_event (handle_event initial_camera (MouseButtonDown Button_left 100 50))
        (MouseMotion 20100 50)) = 4400
   \<and> offset_y (handle_event (handle_event initial_camera (MouseButtonDown Button_left 100 50))
        (MouseMotion 20100 50)) = - 15700
   \<and> last_mouse_x (handle_event (handle_event initial_camera (MouseButtonDown Button_left 100 50))
        (MouseMotion 20100 50)) = 20100
   \<and> offset_x (handle_event_sdl (handle_event_sdl initial_camera_sdl
        (MouseButtonDown Button_left 100 50)) (MouseMotion 20100 50)) = 4400"
proof -
  let ?s = "handle_event initial_camera (MouseButtonDown Button_left 100 50)"
  let ?t = "handle_event_sdl initial_camera_sdl (MouseButtonDown Button_left 100 50)"
  have d: "dragging ?s" "dragging ?t" by simp_all
  have z: "MIN_ZOOM \<le> zoom ?s" "zoom ?s \<le> MAX_ZOOM" "1 \<le> zoom ?t" "zoom ?t \<le> 4"
    by (simp_all add: initial_camera_value initial_camera_sdl_value MIN_ZOOM_value MAX_ZOOM_def)
  note t = drag_pan_within_rounding [OF d(1) z(1,2) d(2) z(3,4), of 20100 50]
  have "offset_x (handle_event ?s (MouseMotion 20100 50))
           = f_add (offset_x ?s) (f_div (int_to_float (20100 - last_mouse_x ?s)) (zoom ?s))"
    "offset_y (handle_event ?s (MouseMotion 20100 50))
           = f_add (offset_y ?s) (f_div (int_to_float (50 - last_mouse_y ?s)) (zoom ?s))"
    "last_mouse_x (handle_event ?s (MouseMotion 20100 50)) = 20100"
    "offset_x (handle_event_sdl ?t (MouseMotion 20100 50))
           = f_add (offset_x ?t) (f_div (int_to_float (20100 - last_mouse_x ?t)) (int_to_float (zoom ?t)))"
    using t by blast+
  with d show ?thesis
    by (simp add: initial_camera_value initial_camera_sdl_value f32_eval)
qed

subsection \<open>Anchored zoom\<close>

lemma inverse_step_representable: "round_f32 (7626007 / 8388608) = 7626007 / 8388608"
  by (rule round_f32_representable [of _ 7626007 "- 23"]) (simp_all add: power_int_minus)

lemma wheel_zoom_out_from_one: "wheel_zoom 1 (- 1) = 7626007 / 8388608"
  by (simp add: wheel_zoom_def inverse_step_value f_mul_def inverse_step_representable
      MIN_ZOOM_value MAX_ZOOM_def)

lemma anchor_quotient: "f_div 3 (7626007 / 8388608) = 3460301 / 1048576"
  unfolding f_div_def
  by (rule trans [OF round_f32_eqI [where e = "1" and u = "1 / 2 ^ 22" and m = "13841204"]])
     (simp_all add: rne_def power_int_minus)

lemma anchor_offset: "f_sub (3460301 / 1048576) (- 13) = 4272947 / 262144"
  unfolding f_sub_def
  by (rule trans [OF round_f32_eqI [where e = "4" and u = "1 / 2 ^ 19" and m = "8545894"]])
     (simp_all add: rne_def power_int_minus)

lemma anchor_world_after:
  "f_sub (3460301 / 1048576) (4272947 / 262144) = - (13631487 / 1048576)"
  unfolding f_sub_def
  by (rule trans [OF round_f32_eqI [where e = "3" and u = "1 / 2 ^ 20" and m = "- 13631487"]])
     (simp_all add: rne_def power_int_minus)

lemma anchor_world_before: "world_coord 3 1 16 = - 13"
  by (simp add: world_coord_def f32_eval)

text \<open>
  C1, as stated, fails in \<open>float\<close> arithmetic. At zoom 1 and offset 16 with the pointer
  at 3, the world point is \<open>3 / 1 - 16 = - 13\<close>. After one zoom-out step the zoom is
  \<open>7626007 / 8388608\<close> and the offset \<open>4272947 / 262144\<close>, and the world point computed
  again from the new state is \<open>- 13631487 / 1048576\<close>, one unit in the last place away
  from \<open>- 13\<close>.
\<close>

theorem anchored_zoom_not_exact:
  "MIN_ZOOM \<le> zoom \<lparr>offset_x = 16, offset_y = 16, zoom = 1, dragging = False,
        last_mouse_x = 0, last_mouse_y = 0, running = True\<rparr>
   \<and> zoom \<lparr>offset_x = 16, offset_y = 16, zoom = 1 :: real, dragging = False,
        last_mouse_x = 0, last_mouse_y = 0, running = True\<rparr> \<le> MAX_ZOOM
   \<and> world_coord 3 1 16 = - 13
   \<and> world_coord 3
        (zoom (handle_event \<lparr>offset_x = 16, offset_y = 16, zoom = 1, dragging = False,
           last_mouse_x = 0, last_mouse_y = 0, running = True\<rparr> (MouseWheel (- 1) 3 3)))
        (offset_x (handle_event \<lparr>offset_x = 16, offset_y = 16, zoom = 1, dragging = False,
           last_mouse_x = 0, last_mouse_y = 0, running = True\<rparr> (MouseWheel (- 1) 3 3)))
      = - (13631487 / 1048576)
   \<and> - (13631487 / 1048576) \<noteq> (- 13 :: real)"
proof -
  have i3: "int_to_float 3 = 3" by (simp add: f32_eval)
  have z: "zoom (handle_event \<lparr>offset_x = 16, offset_y = 16, zoom = 1, dragging = False,
        last_mouse_x = 0, last_mouse_y = 0, running = True\<rparr> (MouseWheel (- 1) 3 3))
      = 7626007 / 8388608"
    by (simp add: Let_def wheel_zoom_out_from_one)
  have o: "offset_x (handle_event \<lparr>offset_x = 16, offset_y = 16, zoom = 1, dragging = False,
        last_mouse_x = 0, last_mouse_y = 0, running = True\<rparr> (MouseWheel (- 1) 3 3))
      = 4272947 / 262144"
    by (simp add: Let_def wheel_zoom_out_from_one anchor_world_before i3 anchor_quotient
        anchor_offset)
  have w: "world_coord 3 (7626007 / 8388608) (4272947 / 262144) = - (13631487 / 1048576)"
    by (simp add: world_coord_def i3 anchor_quotient anchor_world_after)
  have h1: "MIN_ZOOM \<le> zoom \<lparr>offset_x = 16, offset_y = 16, zoom = 1, dragging = False,
        last_mouse_x = 0, last_mouse_y = 0, running = True\<rparr>"
    by (simp add: MIN_ZOOM_value)
  have h2: "zoom \<lparr>offset_x = 16, offset_y = 16, zoom = 1 :: real, dragging = False,
        last_mouse_x = 0, last_mouse_y = 0, running = True\<rparr> \<le> MAX_ZOOM"
    by (simp add: MAX_ZOOM_def)
  have ne: "- (13631487 / 1048576) \<noteq> (- 13 :: real)" by simp
  show ?thesis
    unfolding z o by (intro conjI h1 h2 anchor_world_before w ne)
qed

text \<open>
  C1, amended. For every camera with zoom between \<open>MIN_ZOOM\<close> and \<open>MAX_ZOOM\<close>, every
  pointer position and either wheel direction, the new zoom is the old one times the
  step (or its reciprocal), clamped into \<open>[MIN_ZOOM, MAX_ZOOM]\<close>, the new offset is the
  \<open>float\<close> difference \<open>q - w\<close> of the quotient \<open>q\<close> of the pointer by the new zoom and the
  world point \<open>w\<close> computed before the change, and so the new state keeps \<open>w\<close> up to
  the rounding of the new offset:
  \<open>\<bar>q - offset' - w\<bar> \<le> \<bar>q - w\<bar> / 2 ^ 24 + 1 / 2 ^ 150\<close> on each axis (exact subtraction
  and absolute value), also when the new zoom saturates.
\<close>

theorem anchored_zoom_within_rounding:
  assumes "MIN_ZOOM \<le> zoom s" and "zoom s \<le> MAX_ZOOM"
    and "s' = handle_event s (MouseWheel wy mx my)"
  shows "zoom s' = wheel_zoom (zoom s) wy \<and> MIN_ZOOM \<le> zoom s' \<and> zoom s' \<le> MAX_ZOOM
         \<and> offset_x s' = f_sub (f_div (int_to_float mx) (zoom s'))
                               (world_coord mx (zoom s) (offset_x s))
         \<and> offset_y s' = f_sub (f_div (int_to_float my) (zoom s'))
                               (world_coord my (zoom s) (offset_y s))
         \<and> \<bar>f_div (int_to_float mx) (zoom s') - offset_x s' - world_coord mx (zoom s) (offset_x s)\<bar>
             \<le> \<bar>f_div (int_to_float mx) (zoom s') - world_coord mx (zoom s) (offset_x s)\<bar> / 2 ^ 24
                + 1 / 2 ^ 150
         \<and> \<bar>f_div (int_to_float my) (zoom s') - offset_y s' - world_coord my (zoom s) (offset_y s)\<bar>
             \<le> \<bar>f_div (int_to_float my) (zoom s') - world_coord my (zoom s) (offset_y s)\<bar> / 2 ^ 24
                + 1 / 2 ^ 150"
proof -
  have gen: "\<bar>q - f_sub q w - w\<bar> \<le> \<bar>q - w\<bar> / 2 ^ 24 + 1 / 2 ^ 150" for q w
  proof -
    have "\<bar>q - f_sub q w - w\<bar> = \<bar>round_f32 (q - w) - (q - w)\<bar>"
      by (simp add: f_sub_def abs_minus_commute algebra_simps)
    then show ?thesis using round_f32_error [of "q - w"] by simp
  qed
  have z: "zoom s' = wheel_zoom (zoom s) wy"
    by (simp add: assms(3) Let_def)
  have ox: "offset_x s' = f_sub (f_div (int_to_float mx) (zoom s'))
                                (world_coord mx (zoom s) (offset_x s))"
    by (simp add: assms(3) Let_def)
  have oy: "offset_y s' = f_sub (f_div (int_to_float my) (zoom s'))
                                (world_coord my (zoom s) (offset_y s))"
    by (simp add: assms(3) Let_def)
  have r: "MIN_ZOOM \<le> zoom s'" "zoom s' \<le> MAX_ZOOM"
    using wheel_zoom_range [of "zoom s" wy] by (simp_all add: z)
  have ex: "\<bar>f_div (int_to_float mx) (zoom s') - offset_x s' - world_coord mx (zoom s) (offset_x s)\<bar>
             \<le> \<bar>f_div (int_to_float mx) (zoom s') - world_coord mx (zoom s) (offset_x s)\<bar> / 2 ^ 24
                + 1 / 2 ^ 150"
    unfolding ox by (rule gen)
  have ey: "\<bar>f_div (int_to_float my) (zoom s') - offset_y s' - world_coord my (zoom s) (offset_y s)\<bar>
             \<le> \<bar>f_div (int_to_float my) (zoom s') - world_coord my (zoom s) (offset_y s)\<bar> / 2 ^ 24
                + 1 / 2 ^ 150"
    unfolding oy by (rule gen)
  show ?thesis
    by (intro conjI z r ox oy ex ey)
qed

theorem anchored_zoom_within_rounding_witness:
  "MIN_ZOOM \<le> 1 \<and> 1 \<le> MAX_ZOOM
   \<and> zoom (handle_event \<lparr>offset_x = 16, offset_y = 16, zoom = 1, dragging = False,
         last_mouse_x = 0, last_mouse_y = 0, running = True\<rparr> (MouseWheel (- 1) 3 3))
       = wheel_zoom 1 (- 1)
   \<and> \<bar>f_div (int_to_float 3) (7626007 / 8388608) - 4272947 / 262144 - world_coord 3 1 16\<bar>
       \<le> \<bar>f_div (int_to_float 3) (7626007 / 8388608) - world_coord 3 1 16\<bar> / 2 ^ 24
          + 1 / 2 ^ 150"
proof -
  let ?s = "\<lparr>offset_x = 16, offset_y = 16, zoom = 1 :: real, dragging = False,
         last_mouse_x = 0, last_mouse_y = 0, running = True\<rparr>"
  have h1: "MIN_ZOOM \<le> zoom ?s" by (simp add: MIN_ZOOM_value)
  have h2: "zoom ?s \<le> MAX_ZOOM" by (simp add: MAX_ZOOM_def)
  have i3: "int_to_float 3 = 3" by (simp add: f32_eval)
  have z: "zoom (handle_event ?s (MouseWheel (- 1) 3 3)) = 7626007 / 8388608"
    by (simp add: Let_def wheel_zoom_out_from_one)
  have o: "offset_x (handle_event ?s (MouseWheel (- 1) 3 3)) = 4272947 / 262144"
    by (simp add: Let_def wheel_zoom_out_from_one anchor_world_before i3 anchor_quotient
        anchor_offset)
  have c: "zoom ?s = 1" "offset_x ?s = 16" by simp_all
  from anchored_zoom_within_rounding [OF h1 h2 refl, of "- 1" 3 3]
  have "zoom (handle_event ?s (MouseWheel (- 1) 3 3)) = wheel_zoom 1 (- 1)
    \<and> \<bar>f_div (int_to_float 3) (7626007 / 8388608) - 4272947 / 262144 - world_coord 3 1 16\<bar>
       \<le> \<bar>f_div (int_to_float 3) (7626007 / 8388608) - world_coord 3 1 16\<bar> / 2 ^ 24
          + 1 / 2 ^ 150"
    unfolding z o c by blast
  with h1 h2 show ?thesis by simp
qed

subsection \<open>An atlas smaller than one tile\<close>

lemma fill_random_tilemap_zero: "fill_random_tilemap rand_values 0 = None"
proof -
  have "[0 ..< nat (MAP_HEIGHT * MAP_WIDTH)] = 0 # [Suc 0 ..< nat (MAP_HEIGHT * MAP_WIDTH)]"
    by (rule upt_conv_Cons) (simp add: MAP_HEIGHT_def MAP_WIDTH_def)
  then show ?thesis
    by (simp add: fill_random_tilemap_def c_mod_def)
qed

text \<open>
  C9. A decoded image of 16 by 16 pixels, smaller than one 32 by 32 tile, is accepted by
  \<open>load_tileset\<close> with zero columns and rows; \<open>main\<close> does not reject it, selects the
  shift path for zero columns and calls \<open>fill_random_tilemap\<close> with
  \<open>max_tile_index = 0\<close>, whose first \<open>rand() % 0\<close> is undefined.
\<close>

theorem degenerate_atlas_reaches_fill:
  "load_tileset initial_tileset (Some (16, 16)) = Inr initial_tileset
   \<and> cols initial_tileset * rows initial_tileset = 0
   \<and> main_shift_setup initial_tileset = Some (initial_tileset\<lparr>use_shift := True\<rparr>)
   \<and> fill_random_tilemap rand_values 0 = None
   \<and> main_startup (Some (16, 16)) True rand_values = Inl Undefined_fill_remainder"
proof -
  have l: "load_tileset initial_tileset (Some (16, 16)) = Inr initial_tileset"
    by (simp add: load_tileset_def initial_tileset_def TILE_WIDTH_def TILE_HEIGHT_def
        c_div_def c_quot_def is_power_of_two_def)
  have z: "cols initial_tileset * rows initial_tileset = 0"
    by (simp add: initial_tileset_def)
  have sl: "shift_loop 0 0 = Some 0"
    by (subst shift_loop.simps) simp
  have sh: "main_shift_setup initial_tileset = Some (initial_tileset\<lparr>use_shift := True\<rparr>)"
    by (simp add: main_shift_setup_def initial_tileset_def sl)
  have m: "main_startup (Some (16, 16)) True rand_values = Inl Undefined_fill_remainder"
    by (simp add: main_startup_def l sh z fill_random_tilemap_zero)
  from l z sh fill_random_tilemap_zero m show ?thesis by simp
qed

end
